theory Spec2Isabelle
  imports Main "HOL-Library.Word"
begin

section \<open>Basic types\<close>

text \<open>
  The Diffie-Hellman exchange object of \<^verbatim>\<open>Source/charon/transforms/diffie_hellman.c\<close>
  and the leak-detecting allocator of \<^verbatim>\<open>Source/charon/utils/allocator.c\<close>.
  A chunk (\<^verbatim>\<open>chunk_t\<close>: a pointer and a length) is the list of its bytes.
\<close>

type_synonym u_int8_t = "8 word"
type_synonym u_int16_t = "16 word"
type_synonym chunk_t = "u_int8_t list"

text \<open>
  The values of \<^verbatim>\<open>status_t\<close> other than \<^verbatim>\<open>SUCCESS\<close> that the source returns. A function
  that returns \<^verbatim>\<open>SUCCESS\<close> and writes an out-parameter is \<open>Inr\<close> of the value written.
  \<open>UNINITIALISED\<close> is not a status of the source: it marks a read of an \<^verbatim>\<open>mpz_t\<close> that was never
  initialised, which is undefined in C.
\<close>

datatype error = FAILED | NOT_FOUND | UNINITIALISED

section \<open>The table of groups\<close>

text \<open>Modulus of Group 1 (MODP_768_BIT).\<close>

definition group1_modulus :: "u_int8_t list" where
  "group1_modulus = [
    0xFF,0xFF,0xFF,0xFF,0xFF,0xFF,0xFF,0xFF,0xC9,0x0F,0xDA,0xA2,0x21,0x68,0xC2,0x34,
    0xC4,0xC6,0x62,0x8B,0x80,0xDC,0x1C,0xD1,0x29,0x02,0x4E,0x08,0x8A,0x67,0xCC,0x74,
    0x02,0x0B,0xBE,0xA6,0x3B,0x13,0x9B,0x22,0x51,0x4A,0x08,0x79,0x8E,0x34,0x04,0xDD,
    0xEF,0x95,0x19,0xB3,0xCD,0x3A,0x43,0x1B,0x30,0x2B,0x0A,0x6D,0xF2,0x5F,0x14,0x37,
    0x4F,0xE1,0x35,0x6D,0x6D,0x51,0xC2,0x45,0xE4,0x85,0xB5,0x76,0x62,0x5E,0x7E,0xC6,
    0xF4,0x4C,0x42,0xE9,0xA6,0x3A,0x36,0x20,0xFF,0xFF,0xFF,0xFF,0xFF,0xFF,0xFF,0xFF]"

text \<open>Modulus of Group 2 (MODP_1024_BIT).\<close>

definition group2_modulus :: "u_int8_t list" where
  "group2_modulus = [
    0xFF,0xFF,0xFF,0xFF,0xFF,0xFF,0xFF,0xFF,0xC9,0x0F,0xDA,0xA2,0x21,0x68,0xC2,0x34,
    0xC4,0xC6,0x62,0x8B,0x80,0xDC,0x1C,0xD1,0x29,0x02,0x4E,0x08,0x8A,0x67,0xCC,0x74,
    0x02,0x0B,0xBE,0xA6,0x3B,0x13,0x9B,0x22,0x51,0x4A,0x08,0x79,0x8E,0x34,0x04,0xDD,
    0xEF,0x95,0x19,0xB3,0xCD,0x3A,0x43,0x1B,0x30,0x2B,0x0A,0x6D,0xF2,0x5F,0x14,0x37,
    0x4F,0xE1,0x35,0x6D,0x6D,0x51,0xC2,0x45,0xE4,0x85,0xB5,0x76,0x62,0x5E,0x7E,0xC6,
    0xF4,0x4C,0x42,0xE9,0xA6,0x37,0xED,0x6B,0x0B,0xFF,0x5C,0xB6,0xF4,0x06,0xB7,0xED,
    0xEE,0x38,0x6B,0xFB,0x5A,0x89,0x9F,0xA5,0xAE,0x9F,0x24,0x11,0x7C,0x4B,0x1F,0xE6,
    0x49,0x28,0x66,0x51,0xEC,0xE6,0x53,0x81,0xFF,0xFF,0xFF,0xFF,0xFF,0xFF,0xFF,0xFF]"

text \<open>Modulus of Group 5 (MODP_1536_BIT).\<close>

definition group5_modulus :: "u_int8_t list" where
  "group5_modulus = [
    0xFF,0xFF,0xFF,0xFF,0xFF,0xFF,0xFF,0xFF,0xC9,0x0F,0xDA,0xA2,0x21,0x68,0xC2,0x34,
    0xC4,0xC6,0x62,0x8B,0x80,0xDC,0x1C,0xD1,0x29,0x02,0x4E,0x08,0x8A,0x67,0xCC,0x74,
    0x02,0x0B,0xBE,0xA6,0x3B,0x13,0x9B,0x22,0x51,0x4A,0x08,0x79,0x8E,0x34,0x04,0xDD,
    0xEF,0x95,0x19,0xB3,0xCD,0x3A,0x43,0x1B,0x30,0x2B,0x0A,0x6D,0xF2,0x5F,0x14,0x37,
    0x4F,0xE1,0x35,0x6D,0x6D,0x51,0xC2,0x45,0xE4,0x85,0xB5,0x76,0x62,0x5E,0x7E,0xC6,
    0xF4,0x4C,0x42,0xE9,0xA6,0x37,0xED,0x6B,0x0B,0xFF,0x5C,0xB6,0xF4,0x06,0xB7,0xED,
    0xEE,0x38,0x6B,0xFB,0x5A,0x89,0x9F,0xA5,0xAE,0x9F,0x24,0x11,0x7C,0x4B,0x1F,0xE6,
    0x49,0x28,0x66,0x51,0xEC,0xE4,0x5B,0x3D,0xC2,0x00,0x7C,0xB8,0xA1,0x63,0xBF,0x05,
    0x98,0xDA,0x48,0x36,0x1C,0x55,0xD3,0x9A,0x69,0x16,0x3F,0xA8,0xFD,0x24,0xCF,0x5F,
    0x83,0x65,0x5D,0x23,0xDC,0xA3,0xAD,0x96,0x1C,0x62,0xF3,0x56,0x20,0x85,0x52,0xBB,
    0x9E,0xD5,0x29,0x07,0x70,0x96,0x96,0x6D,0x67,0x0C,0x35,0x4E,0x4A,0xBC,0x98,0x04,
    0xF1,0x74,0x6C,0x08,0xCA,0x23,0x73,0x27,0xFF,0xFF,0xFF,0xFF,0xFF,0xFF,0xFF,0xFF]"

text \<open>Modulus of Group 14 (MODP_2048_BIT).\<close>

definition group14_modulus :: "u_int8_t list" where
  "group14_modulus = [
    0xFF,0xFF,0xFF,0xFF,0xFF,0xFF,0xFF,0xFF,0xC9,0x0F,0xDA,0xA2,0x21,0x68,0xC2,0x34,
    0xC4,0xC6,0x62,0x8B,0x80,0xDC,0x1C,0xD1,0x29,0x02,0x4E,0x08,0x8A,0x67,0xCC,0x74,
    0x02,0x0B,0xBE,0xA6,0x3B,0x13,0x9B,0x22,0x51,0x4A,0x08,0x79,0x8E,0x34,0x04,0xDD,
    0xEF,0x95,0x19,0xB3,0xCD,0x3A,0x43,0x1B,0x30,0x2B,0x0A,0x6D,0xF2,0x5F,0x14,0x37,
    0x4F,0xE1,0x35,0x6D,0x6D,0x51,0xC2,0x45,0xE4,0x85,0xB5,0x76,0x62,0x5E,0x7E,0xC6,
    0xF4,0x4C,0x42,0xE9,0xA6,0x37,0xED,0x6B,0x0B,0xFF,0x5C,0xB6,0xF4,0x06,0xB7,0xED,
    0xEE,0x38,0x6B,0xFB,0x5A,0x89,0x9F,0xA5,0xAE,0x9F,0x24,0x11,0x7C,0x4B,0x1F,0xE6,
    0x49,0x28,0x66,0x51,0xEC,0xE4,0x5B,0x3D,0xC2,0x00,0x7C,0xB8,0xA1,0x63,0xBF,0x05,
    0x98,0xDA,0x48,0x36,0x1C,0x55,0xD3,0x9A,0x69,0x16,0x3F,0xA8,0xFD,0x24,0xCF,0x5F,
    0x83,0x65,0x5D,0x23,0xDC,0xA3,0xAD,0x96,0x1C,0x62,0xF3,0x56,0x20,0x85,0x52,0xBB,
    0x9E,0xD5,0x29,0x07,0x70,0x96,0x96,0x6D,0x67,0x0C,0x35,0x4E,0x4A,0xBC,0x98,0x04,
    0xF1,0x74,0x6C,0x08,0xCA,0x18,0x21,0x7C,0x32,0x90,0x5E,0x46,0x2E,0x36,0xCE,0x3B,
    0xE3,0x9E,0x77,0x2C,0x18,0x0E,0x86,0x03,0x9B,0x27,0x83,0xA2,0xEC,0x07,0xA2,0x8F,
    0xB5,0xC5,0x5D,0xF0,0x6F,0x4C,0x52,0xC9,0xDE,0x2B,0xCB,0xF6,0x95,0x58,0x17,0x18,
    0x39,0x95,0x49,0x7C,0xEA,0x95,0x6A,0xE5,0x15,0xD2,0x26,0x18,0x98,0xFA,0x05,0x10,
    0x15,0x72,0x8E,0x5A,0x8A,0xAC,0xAA,0x68,0xFF,0xFF,0xFF,0xFF,0xFF,0xFF,0xFF,0xFF]"

text \<open>Modulus of Group 15 (MODP_3072_BIT).\<close>

definition group15_modulus :: "u_int8_t list" where
  "group15_modulus = [
    0xFF,0xFF,0xFF,0xFF,0xFF,0xFF,0xFF,0xFF,0xC9,0x0F,0xDA,0xA2,0x21,0x68,0xC2,0x34,
    0xC4,0xC6,0x62,0x8B,0x80,0xDC,0x1C,0xD1,0x29,0x02,0x4E,0x08,0x8A,0x67,0xCC,0x74,
    0x02,0x0B,0xBE,0xA6,0x3B,0x13,0x9B,0x22,0x51,0x4A,0x08,0x79,0x8E,0x34,0x04,0xDD,
    0xEF,0x95,0x19,0xB3,0xCD,0x3A,0x43,0x1B,0x30,0x2B,0x0A,0x6D,0xF2,0x5F,0x14,0x37,
    0x4F,0xE1,0x35,0x6D,0x6D,0x51,0xC2,0x45,0xE4,0x85,0xB5,0x76,0x62,0x5E,0x7E,0xC6,
    0xF4,0x4C,0x42,0xE9,0xA6,0x37,0xED,0x6B,0x0B,0xFF,0x5C,0xB6,0xF4,0x06,0xB7,0xED,
    0xEE,0x38,0x6B,0xFB,0x5A,0x89,0x9F,0xA5,0xAE,0x9F,0x24,0x11,0x7C,0x4B,0x1F,0xE6,
    0x49,0x28,0x66,0x51,0xEC,0xE4,0x5B,0x3D,0xC2,0x00,0x7C,0xB8,0xA1,0x63,0xBF,0x05,
    0x98,0xDA,0x48,0x36,0x1C,0x55,0xD3,0x9A,0x69,0x16,0x3F,0xA8,0xFD,0x24,0xCF,0x5F,
    0x83,0x65,0x5D,0x23,0xDC,0xA3,0xAD,0x96,0x1C,0x62,0xF3,0x56,0x20,0x85,0x52,0xBB,
    0x9E,0xD5,0x29,0x07,0x70,0x96,0x96,0x6D,0x67,0x0C,0x35,0x4E,0x4A,0xBC,0x98,0x04,
    0xF1,0x74,0x6C,0x08,0xCA,0x18,0x21,0x7C,0x32,0x90,0x5E,0x46,0x2E,0x36,0xCE,0x3B,
    0xE3,0x9E,0x77,0x2C,0x18,0x0E,0x86,0x03,0x9B,0x27,0x83,0xA2,0xEC,0x07,0xA2,0x8F,
    0xB5,0xC5,0x5D,0xF0,0x6F,0x4C,0x52,0xC9,0xDE,0x2B,0xCB,0xF6,0x95,0x58,0x17,0x18,
    0x39,0x95,0x49,0x7C,0xEA,0x95,0x6A,0xE5,0x15,0xD2,0x26,0x18,0x98,0xFA,0x05,0x10,
    0x15,0x72,0x8E,0x5A,0x8A,0xAA,0xC4,0x2D,0xAD,0x33,0x17,0x0D,0x04,0x50,0x7A,0x33,
    0xA8,0x55,0x21,0xAB,0xDF,0x1C,0xBA,0x64,0xEC,0xFB,0x85,0x04,0x58,0xDB,0xEF,0x0A,
    0x8A,0xEA,0x71,0x57,0x5D,0x06,0x0C,0x7D,0xB3,0x97,0x0F,0x85,0xA6,0xE1,0xE4,0xC7,
    0xAB,0xF5,0xAE,0x8C,0xDB,0x09,0x33,0xD7,0x1E,0x8C,0x94,0xE0,0x4A,0x25,0x61,0x9D,
    0xCE,0xE3,0xD2,0x26,0x1A,0xD2,0xEE,0x6B,0xF1,0x2F,0xFA,0x06,0xD9,0x8A,0x08,0x64,
    0xD8,0x76,0x02,0x73,0x3E,0xC8,0x6A,0x64,0x52,0x1F,0x2B,0x18,0x17,0x7B,0x20,0x0C,
    0xBB,0xE1,0x17,0x57,0x7A,0x61,0x5D,0x6C,0x77,0x09,0x88,0xC0,0xBA,0xD9,0x46,0xE2,
    0x08,0xE2,0x4F,0xA0,0x74,0xE5,0xAB,0x31,0x43,0xDB,0x5B,0xFC,0xE0,0xFD,0x10,0x8E,
    0x4B,0x82,0xD1,0x20,0xA9,0x3A,0xD2,0xCA,0xFF,0xFF,0xFF,0xFF,0xFF,0xFF,0xFF,0xFF]"

text \<open>Modulus of Group 16 (MODP_4096_BIT).\<close>

definition group16_modulus :: "u_int8_t list" where
  "group16_modulus = [
    0xFF,0xFF,0xFF,0xFF,0xFF,0xFF,0xFF,0xFF,0xC9,0x0F,0xDA,0xA2,0x21,0x68,0xC2,0x34,
    0xC4,0xC6,0x62,0x8B,0x80,0xDC,0x1C,0xD1,0x29,0x02,0x4E,0x08,0x8A,0x67,0xCC,0x74,
    0x02,0x0B,0xBE,0xA6,0x3B,0x13,0x9B,0x22,0x51,0x4A,0x08,0x79,0x8E,0x34,0x04,0xDD,
    0xEF,0x95,0x19,0xB3,0xCD,0x3A,0x43,0x1B,0x30,0x2B,0x0A,0x6D,0xF2,0x5F,0x14,0x37,
    0x4F,0xE1,0x35,0x6D,0x6D,0x51,0xC2,0x45,0xE4,0x85,0xB5,0x76,0x62,0x5E,0x7E,0xC6,
    0xF4,0x4C,0x42,0xE9,0xA6,0x37,0xED,0x6B,0x0B,0xFF,0x5C,0xB6,0xF4,0x06,0xB7,0xED,
    0xEE,0x38,0x6B,0xFB,0x5A,0x89,0x9F,0xA5,0xAE,0x9F,0x24,0x11,0x7C,0x4B,0x1F,0xE6,
    0x49,0x28,0x66,0x51,0xEC,0xE4,0x5B,0x3D,0xC2,0x00,0x7C,0xB8,0xA1,0x63,0xBF,0x05,
    0x98,0xDA,0x48,0x36,0x1C,0x55,0xD3,0x9A,0x69,0x16,0x3F,0xA8,0xFD,0x24,0xCF,0x5F,
    0x83,0x65,0x5D,0x23,0xDC,0xA3,0xAD,0x96,0x1C,0x62,0xF3,0x56,0x20,0x85,0x52,0xBB,
    0x9E,0xD5,0x29,0x07,0x70,0x96,0x96,0x6D,0x67,0x0C,0x35,0x4E,0x4A,0xBC,0x98,0x04,
    0xF1,0x74,0x6C,0x08,0xCA,0x18,0x21,0x7C,0x32,0x90,0x5E,0x46,0x2E,0x36,0xCE,0x3B,
    0xE3,0x9E,0x77,0x2C,0x18,0x0E,0x86,0x03,0x9B,0x27,0x83,0xA2,0xEC,0x07,0xA2,0x8F,
    0xB5,0xC5,0x5D,0xF0,0x6F,0x4C,0x52,0xC9,0xDE,0x2B,0xCB,0xF6,0x95,0x58,0x17,0x18,
    0x39,0x95,0x49,0x7C,0xEA,0x95,0x6A,0xE5,0x15,0xD2,0x26,0x18,0x98,0xFA,0x05,0x10,
    0x15,0x72,0x8E,0x5A,0x8A,0xAA,0xC4,0x2D,0xAD,0x33,0x17,0x0D,0x04,0x50,0x7A,0x33,
    0xA8,0x55,0x21,0xAB,0xDF,0x1C,0xBA,0x64,0xEC,0xFB,0x85,0x04,0x58,0xDB,0xEF,0x0A,
    0x8A,0xEA,0x71,0x57,0x5D,0x06,0x0C,0x7D,0xB3,0x97,0x0F,0x85,0xA6,0xE1,0xE4,0xC7,
    0xAB,0xF5,0xAE,0x8C,0xDB,0x09,0x33,0xD7,0x1E,0x8C,0x94,0xE0,0x4A,0x25,0x61,0x9D,
    0xCE,0xE3,0xD2,0x26,0x1A,0xD2,0xEE,0x6B,0xF1,0x2F,0xFA,0x06,0xD9,0x8A,0x08,0x64,
    0xD8,0x76,0x02,0x73,0x3E,0xC8,0x6A,0x64,0x52,0x1F,0x2B,0x18,0x17,0x7B,0x20,0x0C,
    0xBB,0xE1,0x17,0x57,0x7A,0x61,0x5D,0x6C,0x77,0x09,0x88,0xC0,0xBA,0xD9,0x46,0xE2,
    0x08,0xE2,0x4F,0xA0,0x74,0xE5,0xAB,0x31,0x43,0xDB,0x5B,0xFC,0xE0,0xFD,0x10,0x8E,
    0x4B,0x82,0xD1,0x20,0xA9,0x21,0x08,0x01,0x1A,0x72,0x3C,0x12,0xA7,0x87,0xE6,0xD7,
    0x88,0x71,0x9A,0x10,0xBD,0xBA,0x5B,0x26,0x99,0xC3,0x27,0x18,0x6A,0xF4,0xE2,0x3C,
    0x1A,0x94,0x68,0x34,0xB6,0x15,0x0B,0xDA,0x25,0x83,0xE9,0xCA,0x2A,0xD4,0x4C,0xE8,
    0xDB,0xBB,0xC2,0xDB,0x04,0xDE,0x8E,0xF9,0x2E,0x8E,0xFC,0x14,0x1F,0xBE,0xCA,0xA6,
    0x28,0x7C,0x59,0x47,0x4E,0x6B,0xC0,0x5D,0x99,0xB2,0x96,0x4F,0xA0,0x90,0xC3,0xA2,
    0x23,0x3B,0xA1,0x86,0x51,0x5B,0xE7,0xED,0x1F,0x61,0x29,0x70,0xCE,0xE2,0xD7,0xAF,
    0xB8,0x1B,0xDD,0x76,0x21,0x70,0x48,0x1C,0xD0,0x06,0x91,0x27,0xD5,0xB0,0x5A,0xA9,
    0x93,0xB4,0xEA,0x98,0x8D,0x8F,0xDD,0xC1,0x86,0xFF,0xB7,0xDC,0x90,0xA6,0xC0,0x8F,
    0x4D,0xF4,0x35,0xC9,0x34,0x06,0x31,0x99,0xFF,0xFF,0xFF,0xFF,0xFF,0xFF,0xFF,0xFF]"

text \<open>Modulus of Group 17 (MODP_6144_BIT).\<close>

definition group17_modulus :: "u_int8_t list" where
  "group17_modulus = [
    0xFF,0xFF,0xFF,0xFF,0xFF,0xFF,0xFF,0xFF,0xC9,0x0F,0xDA,0xA2,0x21,0x68,0xC2,0x34,
    0xC4,0xC6,0x62,0x8B,0x80,0xDC,0x1C,0xD1,0x29,0x02,0x4E,0x08,0x8A,0x67,0xCC,0x74,
    0x02,0x0B,0xBE,0xA6,0x3B,0x13,0x9B,0x22,0x51,0x4A,0x08,0x79,0x8E,0x34,0x04,0xDD,
    0xEF,0x95,0x19,0xB3,0xCD,0x3A,0x43,0x1B,0x30,0x2B,0x0A,0x6D,0xF2,0x5F,0x14,0x37,
    0x4F,0xE1,0x35,0x6D,0x6D,0x51,0xC2,0x45,0xE4,0x85,0xB5,0x76,0x62,0x5E,0x7E,0xC6,
    0xF4,0x4C,0x42,0xE9,0xA6,0x37,0xED,0x6B,0x0B,0xFF,0x5C,0xB6,0xF4,0x06,0xB7,0xED,
    0xEE,0x38,0x6B,0xFB,0x5A,0x89,0x9F,0xA5,0xAE,0x9F,0x24,0x11,0x7C,0x4B,0x1F,0xE6,
    0x49,0x28,0x66,0x51,0xEC,0xE4,0x5B,0x3D,0xC2,0x00,0x7C,0xB8,0xA1,0x63,0xBF,0x05,
    0x98,0xDA,0x48,0x36,0x1C,0x55,0xD3,0x9A,0x69,0x16,0x3F,0xA8,0xFD,0x24,0xCF,0x5F,
    0x83,0x65,0x5D,0x23,0xDC,0xA3,0xAD,0x96,0x1C,0x62,0xF3,0x56,0x20,0x85,0x52,0xBB,
    0x9E,0xD5,0x29,0x07,0x70,0x96,0x96,0x6D,0x67,0x0C,0x35,0x4E,0x4A,0xBC,0x98,0x04,
    0xF1,0x74,0x6C,0x08,0xCA,0x18,0x21,0x7C,0x32,0x90,0x5E,0x46,0x2E,0x36,0xCE,0x3B,
    0xE3,0x9E,0x77,0x2C,0x18,0x0E,0x86,0x03,0x9B,0x27,0x83,0xA2,0xEC,0x07,0xA2,0x8F,
    0xB5,0xC5,0x5D,0xF0,0x6F,0x4C,0x52,0xC9,0xDE,0x2B,0xCB,0xF6,0x95,0x58,0x17,0x18,
    0x39,0x95,0x49,0x7C,0xEA,0x95,0x6A,0xE5,0x15,0xD2,0x26,0x18,0x98,0xFA,0x05,0x10,
    0x15,0x72,0x8E,0x5A,0x8A,0xAA,0xC4,0x2D,0xAD,0x33,0x17,0x0D,0x04,0x50,0x7A,0x33,
    0xA8,0x55,0x21,0xAB,0xDF,0x1C,0xBA,0x64,0xEC,0xFB,0x85,0x04,0x58,0xDB,0xEF,0x0A,
    0x8A,0xEA,0x71,0x57,0x5D,0x06,0x0C,0x7D,0xB3,0x97,0x0F,0x85,0xA6,0xE1,0xE4,0xC7,
    0xAB,0xF5,0xAE,0x8C,0xDB,0x09,0x33,0xD7,0x1E,0x8C,0x94,0xE0,0x4A,0x25,0x61,0x9D,
    0xCE,0xE3,0xD2,0x26,0x1A,0xD2,0xEE,0x6B,0xF1,0x2F,0xFA,0x06,0xD9,0x8A,0x08,0x64,
    0xD8,0x76,0x02,0x73,0x3E,0xC8,0x6A,0x64,0x52,0x1F,0x2B,0x18,0x17,0x7B,0x20,0x0C,
    0xBB,0xE1,0x17,0x57,0x7A,0x61,0x5D,0x6C,0x77,0x09,0x88,0xC0,0xBA,0xD9,0x46,0xE2,
    0x08,0xE2,0x4F,0xA0,0x74,0xE5,0xAB,0x31,0x43,0xDB,0x5B,0xFC,0xE0,0xFD,0x10,0x8E,
    0x4B,0x82,0xD1,0x20,0xA9,0x21,0x08,0x01,0x1A,0x72,0x3C,0x12,0xA7,0x87,0xE6,0xD7,
    0x88,0x71,0x9A,0x10,0xBD,0xBA,0x5B,0x26,0x99,0xC3,0x27,0x18,0x6A,0xF4,0xE2,0x3C,
    0x1A,0x94,0x68,0x34,0xB6,0x15,0x0B,0xDA,0x25,0x83,0xE9,0xCA,0x2A,0xD4,0x4C,0xE8,
    0xDB,0xBB,0xC2,0xDB,0x04,0xDE,0x8E,0xF9,0x2E,0x8E,0xFC,0x14,0x1F,0xBE,0xCA,0xA6,
    0x28,0x7C,0x59,0x47,0x4E,0x6B,0xC0,0x5D,0x99,0xB2,0x96,0x4F,0xA0,0x90,0xC3,0xA2,
    0x23,0x3B,0xA1,0x86,0x51,0x5B,0xE7,0xED,0x1F,0x61,0x29,0x70,0xCE,0xE2,0xD7,0xAF,
    0xB8,0x1B,0xDD,0x76,0x21,0x70,0x48,0x1C,0xD0,0x06,0x91,0x27,0xD5,0xB0,0x5A,0xA9,
    0x93,0xB4,0xEA,0x98,0x8D,0x8F,0xDD,0xC1,0x86,0xFF,0xB7,0xDC,0x90,0xA6,0xC0,0x8F,
    0x4D,0xF4,0x35,0xC9,0x34,0x02,0x84,0x92,0x36,0xC3,0xFA,0xB4,0xD2,0x7C,0x70,0x26,
    0xC1,0xD4,0xDC,0xB2,0x60,0x26,0x46,0xDE,0xC9,0x75,0x1E,0x76,0x3D,0xBA,0x37,0xBD,
    0xF8,0xFF,0x94,0x06,0xAD,0x9E,0x53,0x0E,0xE5,0xDB,0x38,0x2F,0x41,0x30,0x01,0xAE,
    0xB0,0x6A,0x53,0xED,0x90,0x27,0xD8,0x31,0x17,0x97,0x27,0xB0,0x86,0x5A,0x89,0x18,
    0xDA,0x3E,0xDB,0xEB,0xCF,0x9B,0x14,0xED,0x44,0xCE,0x6C,0xBA,0xCE,0xD4,0xBB,0x1B,
    0xDB,0x7F,0x14,0x47,0xE6,0xCC,0x25,0x4B,0x33,0x20,0x51,0x51,0x2B,0xD7,0xAF,0x42,
    0x6F,0xB8,0xF4,0x01,0x37,0x8C,0xD2,0xBF,0x59,0x83,0xCA,0x01,0xC6,0x4B,0x92,0xEC,
    0xF0,0x32,0xEA,0x15,0xD1,0x72,0x1D,0x03,0xF4,0x82,0xD7,0xCE,0x6E,0x74,0xFE,0xF6,
    0xD5,0x5E,0x70,0x2F,0x46,0x98,0x0C,0x82,0xB5,0xA8,0x40,0x31,0x90,0x0B,0x1C,0x9E,
    0x59,0xE7,0xC9,0x7F,0xBE,0xC7,0xE8,0xF3,0x23,0xA9,0x7A,0x7E,0x36,0xCC,0x88,0xBE,
    0x0F,0x1D,0x45,0xB7,0xFF,0x58,0x5A,0xC5,0x4B,0xD4,0x07,0xB2,0x2B,0x41,0x54,0xAA,
    0xCC,0x8F,0x6D,0x7E,0xBF,0x48,0xE1,0xD8,0x14,0xCC,0x5E,0xD2,0x0F,0x80,0x37,0xE0,
    0xA7,0x97,0x15,0xEE,0xF2,0x9B,0xE3,0x28,0x06,0xA1,0xD5,0x8B,0xB7,0xC5,0xDA,0x76,
    0xF5,0x50,0xAA,0x3D,0x8A,0x1F,0xBF,0xF0,0xEB,0x19,0xCC,0xB1,0xA3,0x13,0xD5,0x5C,
    0xDA,0x56,0xC9,0xEC,0x2E,0xF2,0x96,0x32,0x38,0x7F,0xE8,0xD7,0x6E,0x3C,0x04,0x68,
    0x04,0x3E,0x8F,0x66,0x3F,0x48,0x60,0xEE,0x12,0xBF,0x2D,0x5B,0x0B,0x74,0x74,0xD6,
    0xE6,0x94,0xF9,0x1E,0x6D,0xCC,0x40,0x24,0xFF,0xFF,0xFF,0xFF,0xFF,0xFF,0xFF,0xFF]"

text \<open>Modulus of Group 18 (MODP_8192_BIT).\<close>

definition group18_modulus :: "u_int8_t list" where
  "group18_modulus = [
    0xFF,0xFF,0xFF,0xFF,0xFF,0xFF,0xFF,0xFF,0xC9,0x0F,0xDA,0xA2,0x21,0x68,0xC2,0x34,
    0xC4,0xC6,0x62,0x8B,0x80,0xDC,0x1C,0xD1,0x29,0x02,0x4E,0x08,0x8A,0x67,0xCC,0x74,
    0x02,0x0B,0xBE,0xA6,0x3B,0x13,0x9B,0x22,0x51,0x4A,0x08,0x79,0x8E,0x34,0x04,0xDD,
    0xEF,0x95,0x19,0xB3,0xCD,0x3A,0x43,0x1B,0x30,0x2B,0x0A,0x6D,0xF2,0x5F,0x14,0x37,
    0x4F,0xE1,0x35,0x6D,0x6D,0x51,0xC2,0x45,0xE4,0x85,0xB5,0x76,0x62,0x5E,0x7E,0xC6,
    0xF4,0x4C,0x42,0xE9,0xA6,0x37,0xED,0x6B,0x0B,0xFF,0x5C,0xB6,0xF4,0x06,0xB7,0xED,
    0xEE,0x38,0x6B,0xFB,0x5A,0x89,0x9F,0xA5,0xAE,0x9F,0x24,0x11,0x7C,0x4B,0x1F,0xE6,
    0x49,0x28,0x66,0x51,0xEC,0xE4,0x5B,0x3D,0xC2,0x00,0x7C,0xB8,0xA1,0x63,0xBF,0x05,
    0x98,0xDA,0x48,0x36,0x1C,0x55,0xD3,0x9A,0x69,0x16,0x3F,0xA8,0xFD,0x24,0xCF,0x5F,
    0x83,0x65,0x5D,0x23,0xDC,0xA3,0xAD,0x96,0x1C,0x62,0xF3,0x56,0x20,0x85,0x52,0xBB,
    0x9E,0xD5,0x29,0x07,0x70,0x96,0x96,0x6D,0x67,0x0C,0x35,0x4E,0x4A,0xBC,0x98,0x04,
    0xF1,0x74,0x6C,0x08,0xCA,0x18,0x21,0x7C,0x32,0x90,0x5E,0x46,0x2E,0x36,0xCE,0x3B,
    0xE3,0x9E,0x77,0x2C,0x18,0x0E,0x86,0x03,0x9B,0x27,0x83,0xA2,0xEC,0x07,0xA2,0x8F,
    0xB5,0xC5,0x5D,0xF0,0x6F,0x4C,0x52,0xC9,0xDE,0x2B,0xCB,0xF6,0x95,0x58,0x17,0x18,
    0x39,0x95,0x49,0x7C,0xEA,0x95,0x6A,0xE5,0x15,0xD2,0x26,0x18,0x98,0xFA,0x05,0x10,
    0x15,0x72,0x8E,0x5A,0x8A,0xAA,0xC4,0x2D,0xAD,0x33,0x17,0x0D,0x04,0x50,0x7A,0x33,
    0xA8,0x55,0x21,0xAB,0xDF,0x1C,0xBA,0x64,0xEC,0xFB,0x85,0x04,0x58,0xDB,0xEF,0x0A,
    0x8A,0xEA,0x71,0x57,0x5D,0x06,0x0C,0x7D,0xB3,0x97,0x0F,0x85,0xA6,0xE1,0xE4,0xC7,
    0xAB,0xF5,0xAE,0x8C,0xDB,0x09,0x33,0xD7,0x1E,0x8C,0x94,0xE0,0x4A,0x25,0x61,0x9D,
    0xCE,0xE3,0xD2,0x26,0x1A,0xD2,0xEE,0x6B,0xF1,0x2F,0xFA,0x06,0xD9,0x8A,0x08,0x64,
    0xD8,0x76,0x02,0x73,0x3E,0xC8,0x6A,0x64,0x52,0x1F,0x2B,0x18,0x17,0x7B,0x20,0x0C,
    0xBB,0xE1,0x17,0x57,0x7A,0x61,0x5D,0x6C,0x77,0x09,0x88,0xC0,0xBA,0xD9,0x46,0xE2,
    0x08,0xE2,0x4F,0xA0,0x74,0xE5,0xAB,0x31,0x43,0xDB,0x5B,0xFC,0xE0,0xFD,0x10,0x8E,
    0x4B,0x82,0xD1,0x20,0xA9,0x21,0x08,0x01,0x1A,0x72,0x3C,0x12,0xA7,0x87,0xE6,0xD7,
    0x88,0x71,0x9A,0x10,0xBD,0xBA,0x5B,0x26,0x99,0xC3,0x27,0x18,0x6A,0xF4,0xE2,0x3C,
    0x1A,0x94,0x68,0x34,0xB6,0x15,0x0B,0xDA,0x25,0x83,0xE9,0xCA,0x2A,0xD4,0x4C,0xE8,
    0xDB,0xBB,0xC2,0xDB,0x04,0xDE,0x8E,0xF9,0x2E,0x8E,0xFC,0x14,0x1F,0xBE,0xCA,0xA6,
    0x28,0x7C,0x59,0x47,0x4E,0x6B,0xC0,0x5D,0x99,0xB2,0x96,0x4F,0xA0,0x90,0xC3,0xA2,
    0x23,0x3B,0xA1,0x86,0x51,0x5B,0xE7,0xED,0x1F,0x61,0x29,0x70,0xCE,0xE2,0xD7,0xAF,
    0xB8,0x1B,0xDD,0x76,0x21,0x70,0x48,0x1C,0xD0,0x06,0x91,0x27,0xD5,0xB0,0x5A,0xA9,
    0x93,0xB4,0xEA,0x98,0x8D,0x8F,0xDD,0xC1,0x86,0xFF,0xB7,0xDC,0x90,0xA6,0xC0,0x8F,
    0x4D,0xF4,0x35,0xC9,0x34,0x02,0x84,0x92,0x36,0xC3,0xFA,0xB4,0xD2,0x7C,0x70,0x26,
    0xC1,0xD4,0xDC,0xB2,0x60,0x26,0x46,0xDE,0xC9,0x75,0x1E,0x76,0x3D,0xBA,0x37,0xBD,
    0xF8,0xFF,0x94,0x06,0xAD,0x9E,0x53,0x0E,0xE5,0xDB,0x38,0x2F,0x41,0x30,0x01,0xAE,
    0xB0,0x6A,0x53,0xED,0x90,0x27,0xD8,0x31,0x17,0x97,0x27,0xB0,0x86,0x5A,0x89,0x18,
    0xDA,0x3E,0xDB,0xEB,0xCF,0x9B,0x14,0xED,0x44,0xCE,0x6C,0xBA,0xCE,0xD4,0xBB,0x1B,
    0xDB,0x7F,0x14,0x47,0xE6,0xCC,0x25,0x4B,0x33,0x20,0x51,0x51,0x2B,0xD7,0xAF,0x42,
    0x6F,0xB8,0xF4,0x01,0x37,0x8C,0xD2,0xBF,0x59,0x83,0xCA,0x01,0xC6,0x4B,0x92,0xEC,
    0xF0,0x32,0xEA,0x15,0xD1,0x72,0x1D,0x03,0xF4,0x82,0xD7,0xCE,0x6E,0x74,0xFE,0xF6,
    0xD5,0x5E,0x70,0x2F,0x46,0x98,0x0C,0x82,0xB5,0xA8,0x40,0x31,0x90,0x0B,0x1C,0x9E,
    0x59,0xE7,0xC9,0x7F,0xBE,0xC7,0xE8,0xF3,0x23,0xA9,0x7A,0x7E,0x36,0xCC,0x88,0xBE,
    0x0F,0x1D,0x45,0xB7,0xFF,0x58,0x5A,0xC5,0x4B,0xD4,0x07,0xB2,0x2B,0x41,0x54,0xAA,
    0xCC,0x8F,0x6D,0x7E,0xBF,0x48,0xE1,0xD8,0x14,0xCC,0x5E,0xD2,0x0F,0x80,0x37,0xE0,
    0xA7,0x97,0x15,0xEE,0xF2,0x9B,0xE3,0x28,0x06,0xA1,0xD5,0x8B,0xB7,0xC5,0xDA,0x76,
    0xF5,0x50,0xAA,0x3D,0x8A,0x1F,0xBF,0xF0,0xEB,0x19,0xCC,0xB1,0xA3,0x13,0xD5,0x5C,
    0xDA,0x56,0xC9,0xEC,0x2E,0xF2,0x96,0x32,0x38,0x7F,0xE8,0xD7,0x6E,0x3C,0x04,0x68,
    0x04,0x3E,0x8F,0x66,0x3F,0x48,0x60,0xEE,0x12,0xBF,0x2D,0x5B,0x0B,0x74,0x74,0xD6,
    0xE6,0x94,0xF9,0x1E,0x6D,0xBE,0x11,0x59,0x74,0xA3,0x92,0x6F,0x12,0xFE,0xE5,0xE4,
    0x38,0x77,0x7C,0xB6,0xA9,0x32,0xDF,0x8C,0xD8,0xBE,0xC4,0xD0,0x73,0xB9,0x31,0xBA,
    0x3B,0xC8,0x32,0xB6,0x8D,0x9D,0xD3,0x00,0x74,0x1F,0xA7,0xBF,0x8A,0xFC,0x47,0xED,
    0x25,0x76,0xF6,0x93,0x6B,0xA4,0x24,0x66,0x3A,0xAB,0x63,0x9C,0x5A,0xE4,0xF5,0x68,
    0x34,0x23,0xB4,0x74,0x2B,0xF1,0xC9,0x78,0x23,0x8F,0x16,0xCB,0xE3,0x9D,0x65,0x2D,
    0xE3,0xFD,0xB8,0xBE,0xFC,0x84,0x8A,0xD9,0x22,0x22,0x2E,0x04,0xA4,0x03,0x7C,0x07,
    0x13,0xEB,0x57,0xA8,0x1A,0x23,0xF0,0xC7,0x34,0x73,0xFC,0x64,0x6C,0xEA,0x30,0x6B,
    0x4B,0xCB,0xC8,0x86,0x2F,0x83,0x85,0xDD,0xFA,0x9D,0x4B,0x7F,0xA2,0xC0,0x87,0xE8,
    0x79,0x68,0x33,0x03,0xED,0x5B,0xDD,0x3A,0x06,0x2B,0x3C,0xF5,0xB3,0xA2,0x78,0xA6,
    0x6D,0x2A,0x13,0xF8,0x3F,0x44,0xF8,0x2D,0xDF,0x31,0x0E,0xE0,0x74,0xAB,0x6A,0x36,
    0x45,0x97,0xE8,0x99,0xA0,0x25,0x5D,0xC1,0x64,0xF3,0x1C,0xC5,0x08,0x46,0x85,0x1D,
    0xF9,0xAB,0x48,0x19,0x5D,0xED,0x7E,0xA1,0xB1,0xD5,0x10,0xBD,0x7E,0xE7,0x4D,0x73,
    0xFA,0xF3,0x6B,0xC3,0x1E,0xCF,0xA2,0x68,0x35,0x90,0x46,0xF4,0xEB,0x87,0x9F,0x92,
    0x40,0x09,0x43,0x8B,0x48,0x1C,0x6C,0xD7,0x88,0x9A,0x00,0x2E,0xD5,0xEE,0x38,0x2B,
    0xC9,0x19,0x0D,0xA6,0xFC,0x02,0x6E,0x47,0x95,0x58,0xE4,0x47,0x56,0x77,0xE9,0xAA,
    0x9E,0x30,0x50,0xE2,0x76,0x56,0x94,0xDF,0xC8,0x1F,0x56,0xE8,0x80,0xB9,0x6E,0x71,
    0x60,0xC9,0x80,0xDD,0x98,0xED,0xD3,0xDF,0xFF,0xFF,0xFF,0xFF,0xFF,0xFF,0xFF,0xFF]"

text \<open>
  Modelled from the spec: the enumerators of \<^verbatim>\<open>diffie_hellman_group_t\<close> are declared in
  \<^verbatim>\<open>diffie_hellman.h\<close>, which is not among the sources. Their values are the group numbers
  that the comments on the modulus arrays give. The object stores the identifier in a
  \<^verbatim>\<open>u_int16_t\<close>, and the identifier has that width here.
\<close>

definition MODP_768_BIT :: u_int16_t where "MODP_768_BIT = 1"
definition MODP_1024_BIT :: u_int16_t where "MODP_1024_BIT = 2"
definition MODP_1536_BIT :: u_int16_t where "MODP_1536_BIT = 5"
definition MODP_2048_BIT :: u_int16_t where "MODP_2048_BIT = 14"
definition MODP_3072_BIT :: u_int16_t where "MODP_3072_BIT = 15"
definition MODP_4096_BIT :: u_int16_t where "MODP_4096_BIT = 16"
definition MODP_6144_BIT :: u_int16_t where "MODP_6144_BIT = 17"
definition MODP_8192_BIT :: u_int16_t where "MODP_8192_BIT = 18"

text \<open>Entry of the modulus list. \<open>size_t\<close> is a natural number.\<close>

record modulus_info_entry_t =
  group :: u_int16_t
  modulus :: "u_int8_t list"
  modulus_length :: nat
  generator :: u_int16_t

text \<open>The length in every entry is \<^verbatim>\<open>sizeof\<close> of its array.\<close>

definition modulus_info_entries :: "modulus_info_entry_t list" where
  "modulus_info_entries = [
    \<lparr>group = MODP_768_BIT, modulus = group1_modulus, modulus_length = length group1_modulus, generator = 2\<rparr>,
    \<lparr>group = MODP_1024_BIT, modulus = group2_modulus, modulus_length = length group2_modulus, generator = 2\<rparr>,
    \<lparr>group = MODP_1536_BIT, modulus = group5_modulus, modulus_length = length group5_modulus, generator = 2\<rparr>,
    \<lparr>group = MODP_2048_BIT, modulus = group14_modulus, modulus_length = length group14_modulus, generator = 2\<rparr>,
    \<lparr>group = MODP_3072_BIT, modulus = group15_modulus, modulus_length = length group15_modulus, generator = 2\<rparr>,
    \<lparr>group = MODP_4096_BIT, modulus = group16_modulus, modulus_length = length group16_modulus, generator = 2\<rparr>,
    \<lparr>group = MODP_6144_BIT, modulus = group17_modulus, modulus_length = length group17_modulus, generator = 2\<rparr>,
    \<lparr>group = MODP_8192_BIT, modulus = group18_modulus, modulus_length = length group18_modulus, generator = 2\<rparr>]"

section \<open>The helper for big integers\<close>

text \<open>
  Modelled from the spec: \<^verbatim>\<open>utils/gmp_helper.c\<close> (\<^verbatim>\<open>chunk_to_mpz\<close>, \<^verbatim>\<open>mpz_to_chunk\<close>,
  \<^verbatim>\<open>init_prime\<close>) and the GMP library (\<^verbatim>\<open>mpz_powm\<close>) are not among the sources. The spec's
  Big-Integer Adapter is followed: \<open>bytes_to_integer\<close> reads a chunk as a big-endian unsigned
  magnitude, leading zero bytes allowed.
\<close>

definition bytes_to_integer :: "chunk_t \<Rightarrow> nat" where
  "bytes_to_integer chunk = foldl (\<lambda>acc b. acc * 256 + unat b) 0 chunk"

text \<open>
  Modelled from the spec: the natural encoding of an integer is its big-endian byte sequence
  without leading zero bytes (empty for 0).
\<close>

fun natural_encoding :: "nat \<Rightarrow> chunk_t" where
  "natural_encoding n = (if n = 0 then [] else natural_encoding (n div 256) @ [of_nat (n mod 256)])"

text \<open>
  Modelled from the spec: \<open>integer_to_bytes\<close> produces exactly \<open>width\<close> bytes, big-endian,
  left-zero-padded, and fails if the integer's natural encoding exceeds \<open>width\<close> bytes.
  Failure to allocate the buffer is not modelled.
\<close>

definition integer_to_bytes :: "nat \<Rightarrow> nat \<Rightarrow> error + chunk_t" where
  "integer_to_bytes x width =
     (if width < length (natural_encoding x) then Inl FAILED
      else Inr (replicate (width - length (natural_encoding x)) 0 @ natural_encoding x))"

text \<open>
  Modelled from the spec: \<open>mod_pow\<close> computes \<open>base ^ exponent mod modulus\<close> by the binary
  (square-and-multiply) method.
\<close>

fun mod_pow :: "nat \<Rightarrow> nat \<Rightarrow> nat \<Rightarrow> nat" where
  "mod_pow base exponent m =
     (if exponent = 0 then 1 mod m
      else (let h = mod_pow base (exponent div 2) m; s = h * h mod m
            in if even exponent then s else s * base mod m))"

text \<open>
  An \<^verbatim>\<open>mpz_t\<close> holds a number once it has been initialised. The values are unsigned magnitudes.
\<close>

datatype mpz_t = Uninitialised | Mpz nat

text \<open>
  Modelled from the spec: \<^verbatim>\<open>chunk_to_mpz\<close> initialises its target and imports the chunk
  (the object's \<^verbatim>\<open>destroy\<close> relies on it: "other public value gets initialized together with
  shared secret").
\<close>

definition chunk_to_mpz :: "chunk_t \<Rightarrow> mpz_t" where
  "chunk_to_mpz chunk = Mpz (bytes_to_integer chunk)"

text \<open>Modelled from the spec: \<^verbatim>\<open>mpz_to_chunk\<close> exports at the width \<open>bytes\<close>.\<close>

definition mpz_to_chunk :: "mpz_t \<Rightarrow> nat \<Rightarrow> error + chunk_t" where
  "mpz_to_chunk mpz_value bytes =
     (case mpz_value of
        Uninitialised \<Rightarrow> Inl UNINITIALISED
      | Mpz x \<Rightarrow> integer_to_bytes x bytes)"

text \<open>
  Modelled from the spec: \<^verbatim>\<open>mpz_powm\<close> of GMP. An operand that was never initialised leaves
  no value, and neither does a modulus of zero, where GMP divides by zero.
\<close>

definition mpz_powm :: "mpz_t \<Rightarrow> mpz_t \<Rightarrow> mpz_t \<Rightarrow> mpz_t" where
  "mpz_powm base exponent m =
     (case (base, exponent, m) of
        (Mpz b, Mpz e, Mpz n) \<Rightarrow> if n = 0 then Uninitialised else Mpz (mod_pow b e n)
      | _ \<Rightarrow> Uninitialised)"

section \<open>The exchange object\<close>

text \<open>
  What the object acquires and releases: its own memory, the helper, and the storage of each
  \<^verbatim>\<open>mpz_t\<close> field (\<open>Local_generator\<close> is the \<^verbatim>\<open>mpz_t\<close> local to
  \<^verbatim>\<open>compute_public_value\<close>). Every function
  returns the list of these events in the order of the calls in the source:
  \<^verbatim>\<open>allocator_alloc_thing\<close>, \<^verbatim>\<open>gmp_helper_create\<close>, \<^verbatim>\<open>mpz_init\<close>, \<^verbatim>\<open>mpz_init_set_ui\<close>,
  \<^verbatim>\<open>chunk_to_mpz\<close> and \<^verbatim>\<open>init_prime\<close> acquire; \<^verbatim>\<open>allocator_free\<close>, the helper's
  \<^verbatim>\<open>destroy\<close> and \<^verbatim>\<open>mpz_clear\<close> release; \<open>Powm\<close> is a call of \<^verbatim>\<open>mpz_powm\<close> into the
  named target.
\<close>

datatype mpz_field = Modulus | My_prime | My_public_value | Other_public_value | Shared_secret

datatype resource = This | Gmp_helper | Big_integer mpz_field | Local_generator

datatype event = Acquire resource | Release resource | Powm mpz_field

text \<open>Private data of the object (the function pointers are left out).\<close>

record private_diffie_hellman_t =
  dh_group_number :: u_int16_t
  modulus :: mpz_t
  modulus_length :: nat
  generator :: u_int16_t
  my_prime :: mpz_t
  my_public_value :: mpz_t
  other_public_value :: mpz_t
  shared_secret :: mpz_t
  my_public_value_is_computed :: bool
  shared_secret_is_computed :: bool

text \<open>The loop of \<^verbatim>\<open>set_modulus\<close> over the entries: the first entry of the group wins.\<close>

fun set_modulus_loop ::
  "modulus_info_entry_t list \<Rightarrow> private_diffie_hellman_t
     \<Rightarrow> (error + private_diffie_hellman_t) \<times> event list" where
  "set_modulus_loop [] this = (Inl NOT_FOUND, [])"
| "set_modulus_loop (e # es) this =
     (if group e = dh_group_number this
      then (let modulus_chunk =
                  take (modulus_info_entry_t.modulus_length e) (modulus_info_entry_t.modulus e)
            in (Inr (this\<lparr>modulus := chunk_to_mpz modulus_chunk,
                          modulus_length := modulus_info_entry_t.modulus_length e,
                          generator := modulus_info_entry_t.generator e\<rparr>),
                [Acquire (Big_integer Modulus)]))
      else set_modulus_loop es this)"

definition set_modulus ::
  "private_diffie_hellman_t \<Rightarrow> (error + private_diffie_hellman_t) \<times> event list" where
  "set_modulus this = set_modulus_loop modulus_info_entries this"

definition compute_shared_secret ::
  "private_diffie_hellman_t \<Rightarrow> private_diffie_hellman_t \<times> event list" where
  "compute_shared_secret this =
     (this\<lparr>shared_secret := mpz_powm (other_public_value this) (my_prime this) (modulus this),
           shared_secret_is_computed := True\<rparr>,
      [Acquire (Big_integer Shared_secret), Powm Shared_secret])"

definition set_other_public_value ::
  "private_diffie_hellman_t \<Rightarrow> chunk_t
     \<Rightarrow> (error + unit) \<times> private_diffie_hellman_t \<times> event list" where
  "set_other_public_value this public_value =
     (let this1 = this\<lparr>other_public_value := chunk_to_mpz public_value\<rparr>;
          (this2, events) = compute_shared_secret this1
      in (Inr (), this2, Acquire (Big_integer Other_public_value) # events))"

definition get_other_public_value :: "private_diffie_hellman_t \<Rightarrow> error + chunk_t" where
  "get_other_public_value this =
     (if \<not> shared_secret_is_computed this then Inl FAILED
      else mpz_to_chunk (other_public_value this) (modulus_length this))"

definition compute_public_value ::
  "private_diffie_hellman_t \<Rightarrow> private_diffie_hellman_t \<times> event list" where
  "compute_public_value this =
     (this\<lparr>my_public_value :=
             mpz_powm (Mpz (unat (generator this))) (my_prime this) (modulus this),
           my_public_value_is_computed := True\<rparr>,
      [Acquire Local_generator, Acquire (Big_integer My_public_value),
       Powm My_public_value, Release Local_generator])"

definition get_my_public_value ::
  "private_diffie_hellman_t \<Rightarrow> (error + chunk_t) \<times> private_diffie_hellman_t \<times> event list" where
  "get_my_public_value this =
     (let (this1, events) =
            (if my_public_value_is_computed this = False then compute_public_value this
             else (this, []))
      in (mpz_to_chunk (my_public_value this1) (modulus_length this1), this1, events))"

definition get_shared_secret :: "private_diffie_hellman_t \<Rightarrow> error + chunk_t" where
  "get_shared_secret this =
     (if \<not> shared_secret_is_computed this then Inl FAILED
      else mpz_to_chunk (shared_secret this) (modulus_length this))"

text \<open>\<^verbatim>\<open>destroy\<close> returns \<^verbatim>\<open>SUCCESS\<close> on its only path; its result is what it releases.\<close>

definition destroy :: "private_diffie_hellman_t \<Rightarrow> event list" where
  "destroy this =
     [Release Gmp_helper, Release (Big_integer Modulus), Release (Big_integer My_prime)]
     @ (if my_public_value_is_computed this then [Release (Big_integer My_public_value)] else [])
     @ (if shared_secret_is_computed this
        then [Release (Big_integer Other_public_value), Release (Big_integer Shared_secret)]
        else [])
     @ [Release This]"

text \<open>
  The memory that \<^verbatim>\<open>allocator_alloc_thing\<close> hands out: no \<^verbatim>\<open>mpz_t\<close> in it is initialised. The
  leak-detecting allocator fills it with zeros; every other field is assigned before it is read.
\<close>

definition allocator_alloc_thing :: private_diffie_hellman_t where
  "allocator_alloc_thing =
     \<lparr>dh_group_number = 0, modulus = Uninitialised, modulus_length = 0, generator = 0,
      my_prime = Uninitialised, my_public_value = Uninitialised,
      other_public_value = Uninitialised, shared_secret = Uninitialised,
      my_public_value_is_computed = False, shared_secret_is_computed = False\<rparr>"

text \<open>
  \<^verbatim>\<open>diffie_hellman_create\<close>. The outcomes of the calls whose code is outside the module are
  parameters: \<open>alloc_ok\<close> (the allocator returned memory), \<open>helper_ok\<close> (\<^verbatim>\<open>gmp_helper_create\<close>
  returned a helper) and \<open>init_prime\<close>, the private exponent that \<^verbatim>\<open>init_prime\<close> produced for
  \<open>modulus_length\<close> bytes, \<open>None\<close> when it did not return \<^verbatim>\<open>SUCCESS\<close> (then it leaves
  \<^verbatim>\<open>my_prime\<close> uninitialised). The result \<open>None\<close> is \<^verbatim>\<open>NULL\<close>.
\<close>

definition diffie_hellman_create ::
  "u_int16_t \<Rightarrow> bool \<Rightarrow> bool \<Rightarrow> nat option
     \<Rightarrow> private_diffie_hellman_t option \<times> event list" where
  "diffie_hellman_create group_number alloc_ok helper_ok init_prime =
     (if \<not> alloc_ok then (None, [])
      else if \<not> helper_ok then (None, [Acquire This, Release This])
      else
        (case set_modulus (allocator_alloc_thing\<lparr>dh_group_number := group_number\<rparr>) of
           (Inl status, events) \<Rightarrow>
             (None, [Acquire This, Acquire Gmp_helper] @ events
                      @ [Release Gmp_helper, Release This])
         | (Inr this, events) \<Rightarrow>
             (case init_prime of
                None \<Rightarrow>
                  (None, [Acquire This, Acquire Gmp_helper] @ events
                           @ [Release Gmp_helper, Release This])
              | Some prime \<Rightarrow>
                  (Some (this\<lparr>my_prime := Mpz prime,
                               my_public_value_is_computed := False,
                               shared_secret_is_computed := False\<rparr>),
                   [Acquire This, Acquire Gmp_helper] @ events
                     @ [Acquire (Big_integer My_prime)]))))"

text \<open>What is still held after a list of events: every release cancels one acquisition.\<close>

fun outstanding :: "event list \<Rightarrow> resource list \<Rightarrow> resource list" where
  "outstanding [] held = held"
| "outstanding (Acquire r # events) held = outstanding events (r # held)"
| "outstanding (Release r # events) held = outstanding events (remove1 r held)"
| "outstanding (Powm f # events) held = outstanding events held"

text \<open>The calls of the public interface that a user makes between creation and destruction.\<close>

datatype call = Get_my_public_value | Set_other_public_value chunk_t | Get_other_public_value
  | Get_shared_secret

fun call_step :: "private_diffie_hellman_t \<Rightarrow> call \<Rightarrow> private_diffie_hellman_t" where
  "call_step this Get_my_public_value = fst (snd (get_my_public_value this))"
| "call_step this (Set_other_public_value chunk) = fst (snd (set_other_public_value this chunk))"
| "call_step this Get_other_public_value = this"
| "call_step this Get_shared_secret = this"

definition after_calls :: "private_diffie_hellman_t \<Rightarrow> call list \<Rightarrow> private_diffie_hellman_t" where
  "after_calls this calls = foldl call_step this calls"

text \<open>The field of the object that holds a big integer.\<close>

fun mpz_of :: "private_diffie_hellman_t \<Rightarrow> mpz_field \<Rightarrow> mpz_t" where
  "mpz_of this Modulus = modulus this"
| "mpz_of this My_prime = my_prime this"
| "mpz_of this My_public_value = my_public_value this"
| "mpz_of this Other_public_value = other_public_value this"
| "mpz_of this Shared_secret = shared_secret this"

text \<open>The bit length that the name of each supported group states.\<close>

definition supported_groups :: "(u_int16_t \<times> nat) list" where
  "supported_groups =
     [(MODP_768_BIT, 768), (MODP_1024_BIT, 1024), (MODP_1536_BIT, 1536), (MODP_2048_BIT, 2048),
      (MODP_3072_BIT, 3072), (MODP_4096_BIT, 4096), (MODP_6144_BIT, 6144), (MODP_8192_BIT, 8192)]"

text \<open>
  The state of an object between two calls: modulus and private exponent hold numbers, the
  modulus is positive and fits its length, and each flag tells whether its values are there.
\<close>

definition consistent :: "private_diffie_hellman_t \<Rightarrow> bool" where
  "consistent this \<longleftrightarrow>
     (\<exists>m p. modulus this = Mpz m \<and> 0 < m \<and> m < 256 ^ modulus_length this \<and> my_prime this = Mpz p
        \<and> my_public_value this
            = (if my_public_value_is_computed this then Mpz (unat (generator this) ^ p mod m)
               else Uninitialised)
        \<and> (if shared_secret_is_computed this
            then \<exists>y. other_public_value this = Mpz y \<and> shared_secret this = Mpz (y ^ p mod m)
            else other_public_value this = Uninitialised \<and> shared_secret this = Uninitialised))"

text \<open>
  A chunk is the encoding of \<open>v\<close> at a width: exactly \<open>width\<close> bytes, big-endian, the natural
  encoding of \<open>v\<close> padded with zero bytes on the left.
\<close>

definition left_padded_encoding :: "nat \<Rightarrow> nat \<Rightarrow> chunk_t \<Rightarrow> bool" where
  "left_padded_encoding width v chunk \<longleftrightarrow>
     length chunk = width \<and> bytes_to_integer chunk = v
     \<and> chunk = replicate (width - length (natural_encoding v)) 0 @ natural_encoding v"

text \<open>The calls that set the peer's public value.\<close>

fun sets_other :: "call \<Rightarrow> bool" where
  "sets_other (Set_other_public_value chunk) = True"
| "sets_other c = False"

section \<open>The leak-detecting allocator\<close>

text \<open>
  The build with \<^verbatim>\<open>LEAK_DETECTIVE\<close>. An address names a block of \<^verbatim>\<open>malloc\<close>; \<open>None\<close> is
  \<^verbatim>\<open>NULL\<close>. The pointer handed out is \<^verbatim>\<open>allocated_memory + 1\<close> and \<^verbatim>\<open>free_pointer\<close> steps back
  by one header, so a block and the pointer to its data are named by the same address. The
  content of the data after the header and the mutex are left out.

  The integer types are those of an LP64 platform: \<^verbatim>\<open>size_t\<close> and \<^verbatim>\<open>unsigned long\<close> have 64 bits,
  \<^verbatim>\<open>int\<close> has 32, a pointer has 8 bytes. A \<^verbatim>\<open>char *\<close> is the address it holds, with the text
  that is stored there.
\<close>

type_synonym address = nat
type_synonym size_t = "64 word"
type_synonym c_int = "32 word"
type_synonym char_pointer = "address \<times> string"

text \<open>Header of each allocated memory area.\<close>

record memory_hdr_t =
  filename :: char_pointer
  line :: size_t
  size_of_memory :: size_t
  older :: "address option"
  newer :: "address option"

text \<open>
  \<^verbatim>\<open>sizeof(memory_hdr_t)\<close>: a pointer, two \<^verbatim>\<open>size_t\<close> and two pointers, 40 bytes.
\<close>

definition sizeof_memory_hdr_t :: size_t where
  "sizeof_memory_hdr_t = 40"

text \<open>
  The allocator object, with the memory that holds the headers of the blocks that
  \<^verbatim>\<open>malloc\<close> has handed out and \<^verbatim>\<open>free\<close> has not taken back.
\<close>

record private_allocator_t =
  allocations :: "address option"
  memory :: "address \<Rightarrow> memory_hdr_t option"

text \<open>
  What stops a call: an \<^verbatim>\<open>assert\<close> that fails, an access through a pointer to no block, or
  a write past the end of a block.
\<close>

datatype fault = Assertion_failed | Invalid_pointer | Buffer_overrun

definition write_newer ::
  "(address \<Rightarrow> memory_hdr_t option) \<Rightarrow> address \<Rightarrow> address option
     \<Rightarrow> fault + (address \<Rightarrow> memory_hdr_t option)" where
  "write_newer mem p v =
     (case mem p of None \<Rightarrow> Inl Invalid_pointer | Some hdr \<Rightarrow> Inr (mem(p \<mapsto> hdr\<lparr>newer := v\<rparr>)))"

definition write_older ::
  "(address \<Rightarrow> memory_hdr_t option) \<Rightarrow> address \<Rightarrow> address option
     \<Rightarrow> fault + (address \<Rightarrow> memory_hdr_t option)" where
  "write_older mem p v =
     (case mem p of None \<Rightarrow> Inl Invalid_pointer | Some hdr \<Rightarrow> Inr (mem(p \<mapsto> hdr\<lparr>older := v\<rparr>)))"

text \<open>
  \<^verbatim>\<open>allocate_special\<close>. The request to \<^verbatim>\<open>malloc\<close> is \<^verbatim>\<open>sizeof(memory_hdr_t) + bytes\<close>, computed
  in \<^verbatim>\<open>size_t\<close>, where it wraps around; \<open>allocated_memory\<close> is what \<^verbatim>\<open>malloc\<close> returned for it,
  \<^verbatim>\<open>NULL\<close> or a block of that many bytes. The writes to the header and the \<^verbatim>\<open>memset\<close> of
  \<open>bytes\<close> zero bytes behind it cover \<open>sizeof(memory_hdr_t) + bytes\<close> bytes of the block: when
  the request has wrapped around, the block is smaller and they run past its end. The writes
  to the header are in the order of the source; \<^verbatim>\<open>int line\<close> is converted to \<^verbatim>\<open>size_t\<close>.
\<close>

definition allocate_special ::
  "private_allocator_t \<Rightarrow> size_t \<Rightarrow> char_pointer \<Rightarrow> c_int \<Rightarrow> address option
     \<Rightarrow> fault + (address option \<times> private_allocator_t)" where
  "allocate_special this bytes file ln allocated_memory =
     (let request = sizeof_memory_hdr_t + bytes
      in case allocated_memory of
           None \<Rightarrow> Inr (None, this)
         | Some a \<Rightarrow>
             if unat request < unat sizeof_memory_hdr_t + unat bytes then Inl Buffer_overrun
             else
               (let mem1 = (memory this)(a \<mapsto>
                      \<lparr>filename = file, line = scast ln, size_of_memory = bytes,
                       older = allocations this, newer = None\<rparr>)
                in case (case allocations this of
                           None \<Rightarrow> Inr mem1
                         | Some h \<Rightarrow> write_newer mem1 h (Some a)) of
                     Inl f \<Rightarrow> Inl f
                   | Inr mem2 \<Rightarrow>
                       (case write_newer mem2 a None of
                          Inl f \<Rightarrow> Inl f
                        | Inr mem3 \<Rightarrow>
                            Inr (Some a, \<lparr>allocations = Some a, memory = mem3\<rparr>))))"

definition allocate ::
  "private_allocator_t \<Rightarrow> size_t \<Rightarrow> char_pointer \<Rightarrow> c_int \<Rightarrow> address option
     \<Rightarrow> fault + (address option \<times> private_allocator_t)" where
  "allocate this bytes file ln allocated_memory =
     allocate_special this bytes file ln allocated_memory"

text \<open>The chunk is its pointer and its length.\<close>

definition allocate_as_chunk ::
  "private_allocator_t \<Rightarrow> size_t \<Rightarrow> char_pointer \<Rightarrow> c_int \<Rightarrow> address option
     \<Rightarrow> fault + ((address option \<times> size_t) \<times> private_allocator_t)" where
  "allocate_as_chunk this bytes file ln allocated_memory =
     (case allocate_special this bytes file ln allocated_memory of
        Inl f \<Rightarrow> Inl f
      | Inr (ptr, this') \<Rightarrow> Inr ((ptr, if ptr = None then 0 else bytes), this'))"

text \<open>
  \<^verbatim>\<open>free_pointer\<close>. Its first \<^verbatim>\<open>if\<close>, on the header \<open>hdr\<close> of the block \<open>a\<close>: the older block's
  \<open>newer\<close> link skips the block.
\<close>

definition unlink_from_older ::
  "(address \<Rightarrow> memory_hdr_t option) \<Rightarrow> address \<Rightarrow> memory_hdr_t
     \<Rightarrow> fault + (address \<Rightarrow> memory_hdr_t option)" where
  "unlink_from_older mem a hdr =
     (case older hdr of
        None \<Rightarrow> Inr mem
      | Some b \<Rightarrow>
          (case mem b of
             None \<Rightarrow> Inl Invalid_pointer
           | Some bh \<Rightarrow>
               if newer bh = Some a then write_newer mem b (newer hdr)
               else Inl Assertion_failed))"

text \<open>
  The second \<^verbatim>\<open>if\<close> moves the head of the list or sets the newer block's \<open>older\<close> link; then
  the block is freed.
\<close>

definition free_pointer :: "private_allocator_t \<Rightarrow> address option \<Rightarrow> fault + private_allocator_t" where
  "free_pointer this pointer =
     (case pointer of
        None \<Rightarrow> Inr this
      | Some a \<Rightarrow>
          (case memory this a of
             None \<Rightarrow> Inl Invalid_pointer
           | Some hdr \<Rightarrow>
               (case unlink_from_older (memory this) a hdr of
                  Inl f \<Rightarrow> Inl f
                | Inr mem1 \<Rightarrow>
                    (case mem1 a of
                       None \<Rightarrow> Inl Invalid_pointer
                     | Some hdr1 \<Rightarrow>
                         (case newer hdr1 of
                            None \<Rightarrow>
                              if Some a = allocations this
                              then Inr \<lparr>allocations = older hdr1, memory = mem1(a := None)\<rparr>
                              else Inl Assertion_failed
                          | Some n \<Rightarrow>
                              (case mem1 n of
                                 None \<Rightarrow> Inl Invalid_pointer
                               | Some nh \<Rightarrow>
                                   if older nh = Some a
                                   then (case write_older mem1 n (older hdr1) of
                                           Inl f \<Rightarrow> Inl f
                                         | Inr mem2 \<Rightarrow>
                                             Inr \<lparr>allocations = allocations this,
                                                  memory = mem2(a := None)\<rparr>)
                                   else Inl Assertion_failed))))))"

text \<open>
  \<^verbatim>\<open>reallocate\<close> reads the size in the header of the old block for \<^verbatim>\<open>memcpy\<close> when the new
  block is there; \<^verbatim>\<open>memcpy\<close> copies the smaller of the two sizes, within both blocks.
\<close>

definition reallocate ::
  "private_allocator_t \<Rightarrow> address option \<Rightarrow> size_t \<Rightarrow> char_pointer \<Rightarrow> c_int
     \<Rightarrow> address option \<Rightarrow> fault + (address option \<times> private_allocator_t)" where
  "reallocate this old bytes file ln allocated_memory =
     (case old of
        None \<Rightarrow> Inr (None, this)
      | Some a \<Rightarrow>
          (case allocate_special this bytes file ln allocated_memory of
             Inl f \<Rightarrow> Inl f
           | Inr (new_space, this1) \<Rightarrow>
               (case new_space of
                  None \<Rightarrow>
                    (case free_pointer this1 old of
                       Inl f \<Rightarrow> Inl f
                     | Inr this2 \<Rightarrow> Inr (None, this2))
                | Some n \<Rightarrow>
                    (case memory this1 a of
                       None \<Rightarrow> Inl Invalid_pointer
                     | Some hdr \<Rightarrow>
                         (case free_pointer this1 old of
                            Inl f \<Rightarrow> Inl f
                          | Inr this2 \<Rightarrow> Inr (new_space, this2))))))"

definition clone_bytes ::
  "private_allocator_t \<Rightarrow> address option \<Rightarrow> size_t \<Rightarrow> char_pointer \<Rightarrow> c_int
     \<Rightarrow> address option \<Rightarrow> fault + (address option \<times> private_allocator_t)" where
  "clone_bytes this to_clone bytes file ln allocated_memory =
     (case to_clone of
        None \<Rightarrow> Inr (None, this)
      | Some source \<Rightarrow> allocate_special this bytes file ln allocated_memory)"

text \<open>
  The loop of \<^verbatim>\<open>allocator_report_memory_leaks\<close>, with fuel: \<open>None\<close> when the fuel runs out
  before the loop ends. It returns the blocks it visited, in order, and for every line it
  printed what it passed to \<^verbatim>\<open>fprintf\<close>: the count \<open>n\<close> (an \<^verbatim>\<open>unsigned long\<close>), the file name
  and the line of the header. The file names of two headers are compared as the source
  compares them, as pointers.
\<close>

fun report_loop ::
  "nat \<Rightarrow> (address \<Rightarrow> memory_hdr_t option) \<Rightarrow> address option \<Rightarrow> address option \<Rightarrow> 64 word
     \<Rightarrow> (fault + address list \<times> (64 word \<times> char_pointer \<times> size_t) list) option" where
  "report_loop 0 mem p pprev n = None"
| "report_loop (Suc fuel) mem p pprev n =
     (case p of
        None \<Rightarrow> Some (Inr ([], []))
      | Some a \<Rightarrow>
          (case mem a of
             None \<Rightarrow> Some (Inl Invalid_pointer)
           | Some hdr \<Rightarrow>
               if pprev \<noteq> newer hdr then Some (Inl Assertion_failed)
               else
                 (case (case older hdr of
                          None \<Rightarrow> Inr True
                        | Some b \<Rightarrow>
                            (case mem b of
                               None \<Rightarrow> Inl Invalid_pointer
                             | Some bh \<Rightarrow> Inr (fst (filename hdr) \<noteq> fst (filename bh)))) of
                    Inl f \<Rightarrow> Some (Inl f)
                  | Inr emit \<Rightarrow>
                      (case report_loop fuel mem (older hdr) (Some a) (if emit then 0 else n + 1) of
                         None \<Rightarrow> None
                       | Some (Inl f) \<Rightarrow> Some (Inl f)
                       | Some (Inr (visited, printed)) \<Rightarrow>
                           Some (Inr (a # visited,
                             (if emit then [(n + 1, filename hdr, line hdr)] else []) @ printed))))))"

definition allocator_report_memory_leaks ::
  "nat \<Rightarrow> private_allocator_t
     \<Rightarrow> (fault + address list \<times> (64 word \<times> char_pointer \<times> size_t) list) option" where
  "allocator_report_memory_leaks fuel this =
     report_loop fuel (memory this) (allocations this) None 0"

text \<open>The only allocator object: no allocation yet.\<close>

definition allocator :: private_allocator_t where
  "allocator = \<lparr>allocations = None, memory = (\<lambda>a. None)\<rparr>"

text \<open>
  A call of the public interface, with what \<^verbatim>\<open>malloc\<close> returns in it as the last argument
  of the calls that allocate.
\<close>

datatype allocator_call =
    Allocate size_t char_pointer c_int "address option"
  | Allocate_as_chunk size_t char_pointer c_int "address option"
  | Clone_bytes "address option" size_t char_pointer c_int "address option"
  | Reallocate "address option" size_t char_pointer c_int "address option"
  | Free_pointer "address option"

fun call_allocator ::
  "private_allocator_t \<Rightarrow> allocator_call \<Rightarrow> fault + (address option \<times> private_allocator_t)" where
  "call_allocator this (Allocate bytes file ln m) = allocate this bytes file ln m"
| "call_allocator this (Allocate_as_chunk bytes file ln m) =
     (case allocate_as_chunk this bytes file ln m of
        Inl f \<Rightarrow> Inl f
      | Inr (chunk, this') \<Rightarrow> Inr (fst chunk, this'))"
| "call_allocator this (Clone_bytes to_clone bytes file ln m) =
     clone_bytes this to_clone bytes file ln m"
| "call_allocator this (Reallocate old bytes file ln m) = reallocate this old bytes file ln m"
| "call_allocator this (Free_pointer pointer) =
     (case free_pointer this pointer of Inl f \<Rightarrow> Inl f | Inr this' \<Rightarrow> Inr (None, this'))"

text \<open>The pointer that a call gives back to the allocator, and what \<^verbatim>\<open>malloc\<close> returns in it.\<close>

fun given_back :: "allocator_call \<Rightarrow> address option" where
  "given_back (Free_pointer pointer) = pointer"
| "given_back (Reallocate old bytes file ln m) = old"
| "given_back c = None"

fun malloc_returns :: "allocator_call \<Rightarrow> address option" where
  "malloc_returns (Allocate bytes file ln m) = m"
| "malloc_returns (Allocate_as_chunk bytes file ln m) = m"
| "malloc_returns (Clone_bytes to_clone bytes file ln m) = (if to_clone = None then None else m)"
| "malloc_returns (Reallocate old bytes file ln m) = (if old = None then None else m)"
| "malloc_returns (Free_pointer pointer) = None"

text \<open>
  The allocations handed out and not yet freed, after a call that returned \<open>result\<close>.
\<close>

definition handed_out :: "address list \<Rightarrow> allocator_call \<Rightarrow> address option \<Rightarrow> address list" where
  "handed_out live c result =
     (let rest = (case given_back c of None \<Rightarrow> live | Some a \<Rightarrow> remove1 a live)
      in case result of None \<Rightarrow> rest | Some a \<Rightarrow> a # rest)"

text \<open>The number of bytes that a call asks for.\<close>

fun requested :: "allocator_call \<Rightarrow> size_t" where
  "requested (Allocate bytes file ln m) = bytes"
| "requested (Allocate_as_chunk bytes file ln m) = bytes"
| "requested (Clone_bytes to_clone bytes file ln m) = bytes"
| "requested (Reallocate old bytes file ln m) = bytes"
| "requested (Free_pointer pointer) = 0"

text \<open>
  A call keeps the contract of the C library and of the allocator when \<^verbatim>\<open>malloc\<close> returns
  \<^verbatim>\<open>NULL\<close> or a block that is not in use, and the pointer given back is \<^verbatim>\<open>NULL\<close> or an
  allocation handed out and not yet freed.
\<close>

definition call_in_contract :: "private_allocator_t \<Rightarrow> address list \<Rightarrow> allocator_call \<Rightarrow> bool" where
  "call_in_contract this live c \<longleftrightarrow>
     (case malloc_returns c of None \<Rightarrow> True | Some a \<Rightarrow> memory this a = None)
     \<and> (case given_back c of None \<Rightarrow> True | Some a \<Rightarrow> a \<in> set live)"

text \<open>
  A call is permitted when it keeps the contract and, if \<^verbatim>\<open>malloc\<close> returns a block in it, the
  header and the bytes asked for fit in \<^verbatim>\<open>size_t\<close> together: the request has not wrapped around.
\<close>

definition call_permitted :: "private_allocator_t \<Rightarrow> address list \<Rightarrow> allocator_call \<Rightarrow> bool" where
  "call_permitted this live c \<longleftrightarrow>
     call_in_contract this live c
     \<and> (case malloc_returns c of
          None \<Rightarrow> True
        | Some a \<Rightarrow> unat sizeof_memory_hdr_t + unat (requested c) < 2 ^ 64)"

fun run_allocator ::
  "private_allocator_t \<Rightarrow> address list \<Rightarrow> allocator_call list
     \<Rightarrow> fault + (private_allocator_t \<times> address list)" where
  "run_allocator this live [] = Inr (this, live)"
| "run_allocator this live (c # cs) =
     (case call_allocator this c of
        Inl f \<Rightarrow> Inl f
      | Inr (result, this') \<Rightarrow> run_allocator this' (handed_out live c result) cs)"

fun calls_permitted ::
  "private_allocator_t \<Rightarrow> address list \<Rightarrow> allocator_call list \<Rightarrow> bool" where
  "calls_permitted this live [] = True"
| "calls_permitted this live (c # cs) =
     (call_permitted this live c
      \<and> (case call_allocator this c of
           Inl f \<Rightarrow> True
         | Inr (result, this') \<Rightarrow> calls_permitted this' (handed_out live c result) cs))"

text \<open>
  The blocks \<open>nodes\<close> are linked from \<open>cur\<close> by the \<open>older\<close> links up to \<open>nxt\<close>, and each one's
  \<open>newer\<close> link is the block before it (\<open>prev\<close> for the first).
\<close>

fun linked ::
  "(address \<Rightarrow> memory_hdr_t option) \<Rightarrow> address option \<Rightarrow> address option \<Rightarrow> address list
     \<Rightarrow> address option \<Rightarrow> bool" where
  "linked mem prev cur [] nxt = (cur = nxt)"
| "linked mem prev cur (a # as) nxt =
     (cur = Some a
      \<and> (case mem a of
           None \<Rightarrow> False
         | Some hdr \<Rightarrow> newer hdr = prev \<and> linked mem (Some a) (older hdr) as nxt))"

text \<open>
  The list of allocations is well formed and holds exactly the allocations in \<open>live\<close>.
\<close>

definition well_formed :: "private_allocator_t \<Rightarrow> address list \<Rightarrow> address list \<Rightarrow> bool" where
  "well_formed this nodes live \<longleftrightarrow>
     linked (memory this) None (allocations this) nodes None \<and> distinct nodes
     \<and> set nodes = set live \<and> distinct live \<and> dom (memory this) = set nodes"


section \<open>Properties of the helper\<close>

declare natural_encoding.simps [simp del]
declare mod_pow.simps [simp del]

lemma bytes_to_integer_foldl:
  "foldl (\<lambda>acc b. acc * 256 + unat (b :: u_int8_t)) a chunk
     = a * 256 ^ length chunk + foldl (\<lambda>acc b. acc * 256 + unat b) 0 chunk"
proof (induction chunk arbitrary: a)
  case Nil
  show ?case by simp
next
  case (Cons b chunk)
  have "foldl (\<lambda>acc b. acc * 256 + unat b) a (b # chunk)
          = (a * 256 + unat b) * 256 ^ length chunk + foldl (\<lambda>acc b. acc * 256 + unat b) 0 chunk"
    using Cons.IH [of "a * 256 + unat b"] by simp
  moreover have "foldl (\<lambda>acc b. acc * 256 + unat b) 0 (b # chunk)
          = unat b * 256 ^ length chunk + foldl (\<lambda>acc b. acc * 256 + unat b) 0 chunk"
    using Cons.IH [of "unat b"] by simp
  ultimately show ?case by (simp add: algebra_simps)
qed

lemma bytes_to_integer_Nil: "bytes_to_integer [] = 0"
  by (simp add: bytes_to_integer_def)

lemma bytes_to_integer_Cons:
  "bytes_to_integer (b # chunk) = unat b * 256 ^ length chunk + bytes_to_integer chunk"
  using bytes_to_integer_foldl [of "unat b" chunk] by (simp add: bytes_to_integer_def)

lemma bytes_to_integer_append:
  "bytes_to_integer (xs @ ys) = bytes_to_integer xs * 256 ^ length ys + bytes_to_integer ys"
  using bytes_to_integer_foldl [of "bytes_to_integer xs" ys] by (simp add: bytes_to_integer_def)

lemma bytes_to_integer_zeros: "bytes_to_integer (replicate k 0) = 0"
  by (induction k) (simp_all add: bytes_to_integer_Nil bytes_to_integer_Cons)

lemma bytes_to_integer_less: "bytes_to_integer chunk < 256 ^ length chunk"
proof (induction chunk)
  case Nil
  show ?case by (simp add: bytes_to_integer_Nil)
next
  case (Cons b chunk)
  have "unat b < 256" using unsigned_less [of b] by simp
  then have "Suc (unat b) \<le> 256" by simp
  then have "Suc (unat b) * 256 ^ length chunk \<le> 256 * 256 ^ length chunk"
    by (rule mult_le_mono1)
  then have "unat b * 256 ^ length chunk + 256 ^ length chunk \<le> 256 * 256 ^ length chunk"
    by (simp add: add.commute)
  with Cons.IH have "unat b * 256 ^ length chunk + bytes_to_integer chunk
      < 256 * 256 ^ length chunk" by linarith
  then show ?case by (simp add: bytes_to_integer_Cons)
qed

lemma bytes_to_integer_pos:
  assumes "chunk \<noteq> []" and "hd chunk \<noteq> 0"
  shows "0 < bytes_to_integer chunk"
proof -
  from assms obtain b rest where c: "chunk = b # rest" and b: "b \<noteq> 0"
    by (cases chunk) auto
  from b have "0 < unat b" by (simp add: unat_gt_0)
  then show ?thesis by (simp add: c bytes_to_integer_Cons)
qed

lemma bytes_to_integer_natural_encoding: "bytes_to_integer (natural_encoding n) = n"
proof (induction n rule: natural_encoding.induct)
  case (1 n)
  show ?case
  proof (cases "n = 0")
    case True
    then show ?thesis by (simp add: natural_encoding.simps bytes_to_integer_Nil)
  next
    case False
    have "unat (of_nat (n mod 256) :: u_int8_t) = n mod 256"
      by (simp add: unat_of_nat)
    with False "1.IH" show ?thesis
      by (simp add: natural_encoding.simps [of n] bytes_to_integer_append bytes_to_integer_Cons
          bytes_to_integer_Nil)
  qed
qed

lemma length_natural_encoding: "n < 256 ^ w \<Longrightarrow> length (natural_encoding n) \<le> w"
proof (induction n arbitrary: w rule: natural_encoding.induct)
  case (1 n)
  show ?case
  proof (cases "n = 0")
    case True
    then show ?thesis by (simp add: natural_encoding.simps)
  next
    case False
    with "1.prems" obtain v where w: "w = Suc v" by (cases w) auto
    with "1.prems" have "n div 256 < 256 ^ v"
      by (simp add: less_mult_imp_div_less mult.commute)
    with False "1.IH" [of v] have "length (natural_encoding (n div 256)) \<le> v" by simp
    with False w show ?thesis by (simp add: natural_encoding.simps [of n])
  qed
qed

lemma natural_encoding_fits: "256 ^ length (natural_encoding n) > n"
  using bytes_to_integer_less [of "natural_encoding n"]
  by (simp add: bytes_to_integer_natural_encoding)

lemma integer_to_bytes_fits:
  assumes "x < 256 ^ width"
  shows "integer_to_bytes x width
           = Inr (replicate (width - length (natural_encoding x)) 0 @ natural_encoding x)"
  using length_natural_encoding [OF assms] by (simp add: integer_to_bytes_def)

lemma integer_to_bytes_too_long:
  assumes "256 ^ width \<le> x"
  shows "integer_to_bytes x width = Inl FAILED"
proof -
  have "\<not> length (natural_encoding x) \<le> width"
  proof
    assume "length (natural_encoding x) \<le> width"
    then have "(256::nat) ^ length (natural_encoding x) \<le> 256 ^ width"
      by (simp add: power_increasing)
    with natural_encoding_fits [of x] assms show False by simp
  qed
  then show ?thesis by (simp add: integer_to_bytes_def)
qed

lemma integer_to_bytes_Inr:
  assumes "integer_to_bytes x width = Inr chunk"
  shows "length chunk = width" and "bytes_to_integer chunk = x"
    and "chunk = replicate (width - length (natural_encoding x)) 0 @ natural_encoding x"
  using assms
  by (auto simp: integer_to_bytes_def bytes_to_integer_append bytes_to_integer_zeros
      bytes_to_integer_natural_encoding split: if_splits)

lemma mod_pow_eq: "mod_pow b e m = b ^ e mod m"
proof (induction b e m rule: mod_pow.induct)
  case (1 b e m)
  show ?case
  proof (cases "e = 0")
    case True
    then show ?thesis by (simp add: mod_pow.simps)
  next
    case False
    with "1.IH" have h: "mod_pow b (e div 2) m = b ^ (e div 2) mod m" by simp
    have sq: "(b ^ (e div 2) mod m) * (b ^ (e div 2) mod m) mod m = b ^ (2 * (e div 2)) mod m"
      by (simp add: mod_mult_eq mult_2 power_add)
    show ?thesis
    proof (cases "even e")
      case True
      then have "2 * (e div 2) = e" by simp
      with False True h sq show ?thesis by (simp add: mod_pow.simps [of b e m] Let_def)
    next
      case odd: False
      then have e: "e = Suc (2 * (e div 2))" by (simp add: odd_two_times_div_two_succ)
      have "b ^ (2 * (e div 2)) mod m * b mod m = b ^ Suc (2 * (e div 2)) mod m"
        by (simp add: mod_mult_right_eq mult.commute)
      with e have "b ^ (2 * (e div 2)) mod m * b mod m = b ^ e mod m" by simp
      with False odd h sq show ?thesis by (simp add: mod_pow.simps [of b e m] Let_def)
    qed
  qed
qed


section \<open>Properties of the table\<close>

lemma length_group1_modulus: "length group1_modulus = 96"
  unfolding group1_modulus_def by simp

lemma length_group2_modulus: "length group2_modulus = 128"
  unfolding group2_modulus_def by simp

lemma length_group5_modulus: "length group5_modulus = 192"
  unfolding group5_modulus_def by simp

lemma length_group14_modulus: "length group14_modulus = 256"
  unfolding group14_modulus_def by simp

lemma length_group15_modulus: "length group15_modulus = 384"
  unfolding group15_modulus_def by simp

lemma length_group16_modulus: "length group16_modulus = 512"
  unfolding group16_modulus_def by simp

lemma length_group17_modulus: "length group17_modulus = 768"
  unfolding group17_modulus_def by simp

lemma length_group18_modulus: "length group18_modulus = 1024"
  unfolding group18_modulus_def by simp

lemmas length_group_modulus = length_group1_modulus length_group2_modulus length_group5_modulus
  length_group14_modulus length_group15_modulus length_group16_modulus length_group17_modulus
  length_group18_modulus

lemma hd_group_modulus:
  "hd group1_modulus = 0xFF" "hd group2_modulus = 0xFF" "hd group5_modulus = 0xFF"
  "hd group14_modulus = 0xFF" "hd group15_modulus = 0xFF" "hd group16_modulus = 0xFF"
  "hd group17_modulus = 0xFF" "hd group18_modulus = 0xFF"
  unfolding group1_modulus_def group2_modulus_def group5_modulus_def group14_modulus_def
    group15_modulus_def group16_modulus_def group17_modulus_def group18_modulus_def
  by simp_all

lemmas MODP_defs = MODP_768_BIT_def MODP_1024_BIT_def MODP_1536_BIT_def MODP_2048_BIT_def
  MODP_3072_BIT_def MODP_4096_BIT_def MODP_6144_BIT_def MODP_8192_BIT_def

lemma modulus_info_entries_sound:
  assumes "e \<in> set modulus_info_entries"
  shows "modulus_info_entry_t.modulus_length e = length (modulus_info_entry_t.modulus e)"
    and "modulus_info_entry_t.modulus e \<noteq> []"
    and "hd (modulus_info_entry_t.modulus e) = 0xFF"
    and "modulus_info_entry_t.generator e = 2"
proof -
  from assms have "modulus_info_entry_t.modulus_length e = length (modulus_info_entry_t.modulus e)
      \<and> 96 \<le> length (modulus_info_entry_t.modulus e)
      \<and> hd (modulus_info_entry_t.modulus e) = 0xFF \<and> modulus_info_entry_t.generator e = 2"
    unfolding modulus_info_entries_def
    by (auto simp: length_group_modulus hd_group_modulus)
  then show "modulus_info_entry_t.modulus_length e = length (modulus_info_entry_t.modulus e)"
    and "modulus_info_entry_t.modulus e \<noteq> []"
    and "hd (modulus_info_entry_t.modulus e) = 0xFF"
    and "modulus_info_entry_t.generator e = 2"
    by auto
qed

lemma set_modulus_loop_Inr:
  assumes "set_modulus_loop es this = (Inr this', events)"
  shows "\<exists>e \<in> set es. group e = dh_group_number this
           \<and> this' = this\<lparr>modulus := chunk_to_mpz (take (modulus_info_entry_t.modulus_length e)
                                                     (modulus_info_entry_t.modulus e)),
                          modulus_length := modulus_info_entry_t.modulus_length e,
                          generator := modulus_info_entry_t.generator e\<rparr>
           \<and> events = [Acquire (Big_integer Modulus)]"
  using assms by (induction es) (auto split: if_splits)

lemma set_modulus_loop_not_found:
  assumes "\<forall>e \<in> set es. group e \<noteq> dh_group_number this"
  shows "set_modulus_loop es this = (Inl NOT_FOUND, [])"
  using assms by (induction es) auto

lemma groups_of_entries: "map group modulus_info_entries = map fst supported_groups"
  unfolding modulus_info_entries_def supported_groups_def by simp

lemma distinct_supported_groups: "distinct (map fst supported_groups)"
  unfolding supported_groups_def MODP_defs by simp

lemma distinct_groups: "distinct (map group modulus_info_entries)"
  unfolding groups_of_entries by (rule distinct_supported_groups)

lemma entries_bits_all:
  "\<forall>e \<in> set modulus_info_entries.
     (group e, 8 * modulus_info_entry_t.modulus_length e) \<in> set supported_groups"
  unfolding modulus_info_entries_def supported_groups_def
  by (simp add: length_group_modulus)

lemma entries_bits:
  assumes "e \<in> set modulus_info_entries"
  shows "(group e, 8 * modulus_info_entry_t.modulus_length e) \<in> set supported_groups"
  using assms entries_bits_all by blast

lemma set_modulus_loop_found:
  assumes "distinct (map group es)" and "e \<in> set es" and "group e = dh_group_number this"
  shows "set_modulus_loop es this
           = (Inr (this\<lparr>modulus := chunk_to_mpz (take (modulus_info_entry_t.modulus_length e)
                                                     (modulus_info_entry_t.modulus e)),
                          modulus_length := modulus_info_entry_t.modulus_length e,
                          generator := modulus_info_entry_t.generator e\<rparr>),
              [Acquire (Big_integer Modulus)])"
  using assms by (induction es) (force simp: Let_def)+

lemma high_bit_0xFF: "bit (0xFF :: u_int8_t) 7"
  by simp

text \<open>
  C7: for each of the eight supported group identifiers \<^verbatim>\<open>set_modulus\<close> succeeds through an
  entry of the table whose length (and the object's \<open>modulus_length\<close>) is the bit length of the
  group divided by 8, whose generator is 2 and whose modulus bytes have that length and start
  with a byte whose high bit is set; for every other identifier it returns \<^verbatim>\<open>NOT_FOUND\<close>.
\<close>

theorem set_modulus_resolves_supported_groups:
  "(\<forall>bits. (dh_group_number this, bits) \<in> set supported_groups \<longrightarrow>
      (\<exists>e this'. e \<in> set modulus_info_entries \<and> group e = dh_group_number this
         \<and> set_modulus this = (Inr this', [Acquire (Big_integer Modulus)])
         \<and> modulus_length this' = bits div 8 \<and> generator this' = 2
         \<and> modulus this' = Mpz (bytes_to_integer (modulus_info_entry_t.modulus e))
         \<and> modulus_info_entry_t.modulus_length e = bits div 8
         \<and> modulus_info_entry_t.generator e = 2
         \<and> length (modulus_info_entry_t.modulus e) = bits div 8
         \<and> bit (hd (modulus_info_entry_t.modulus e)) 7))
   \<and> (dh_group_number this \<notin> fst ` set supported_groups \<longrightarrow>
        set_modulus this = (Inl NOT_FOUND, []))"
proof (intro conjI allI impI)
  fix bits
  assume s: "(dh_group_number this, bits) \<in> set supported_groups"
  then have "dh_group_number this \<in> set (map group modulus_info_entries)"
    unfolding groups_of_entries by force
  then obtain e where e: "e \<in> set modulus_info_entries" "group e = dh_group_number this"
    by auto
  from entries_bits [OF e(1)] e(2) s distinct_supported_groups
  have bits: "bits = 8 * modulus_info_entry_t.modulus_length e"
    by (metis eq_key_imp_eq_value)
  note sound = modulus_info_entries_sound [OF e(1)]
  let ?this' = "this\<lparr>modulus := chunk_to_mpz (take (modulus_info_entry_t.modulus_length e)
                                                     (modulus_info_entry_t.modulus e)),
                          modulus_length := modulus_info_entry_t.modulus_length e,
                          generator := modulus_info_entry_t.generator e\<rparr>"
  have "set_modulus this = (Inr ?this', [Acquire (Big_integer Modulus)])"
    unfolding set_modulus_def by (rule set_modulus_loop_found [OF distinct_groups e])
  moreover have "modulus ?this' = Mpz (bytes_to_integer (modulus_info_entry_t.modulus e))"
    by (simp add: sound(1) chunk_to_mpz_def)
  moreover have "bit (hd (modulus_info_entry_t.modulus e)) 7"
    unfolding sound(3) by (rule high_bit_0xFF)
  ultimately show "\<exists>e this'. e \<in> set modulus_info_entries \<and> group e = dh_group_number this
         \<and> set_modulus this = (Inr this', [Acquire (Big_integer Modulus)])
         \<and> modulus_length this' = bits div 8 \<and> generator this' = 2
         \<and> modulus this' = Mpz (bytes_to_integer (modulus_info_entry_t.modulus e))
         \<and> modulus_info_entry_t.modulus_length e = bits div 8
         \<and> modulus_info_entry_t.generator e = 2
         \<and> length (modulus_info_entry_t.modulus e) = bits div 8
         \<and> bit (hd (modulus_info_entry_t.modulus e)) 7"
    using e bits sound(1,4) by (intro exI [of _ e] exI [of _ ?this']) simp
next
  assume "dh_group_number this \<notin> fst ` set supported_groups"
  then have "\<forall>e \<in> set modulus_info_entries. group e \<noteq> dh_group_number this"
    using groups_of_entries by (metis image_eqI list.set_map)
  then show "set_modulus this = (Inl NOT_FOUND, [])"
    unfolding set_modulus_def by (rule set_modulus_loop_not_found)
qed

theorem set_modulus_resolves_supported_groups_witness:
  "(dh_group_number (allocator_alloc_thing\<lparr>dh_group_number := MODP_2048_BIT\<rparr>), 2048)
      \<in> set supported_groups
   \<and> (\<exists>e this'. e \<in> set modulus_info_entries \<and> group e = MODP_2048_BIT
         \<and> set_modulus (allocator_alloc_thing\<lparr>dh_group_number := MODP_2048_BIT\<rparr>)
             = (Inr this', [Acquire (Big_integer Modulus)])
         \<and> modulus_length this' = 256 \<and> generator this' = 2
         \<and> length (modulus_info_entry_t.modulus e) = 256
         \<and> bit (hd (modulus_info_entry_t.modulus e)) 7)
   \<and> dh_group_number (allocator_alloc_thing\<lparr>dh_group_number := 3\<rparr>)
        \<notin> fst ` set supported_groups
   \<and> set_modulus (allocator_alloc_thing\<lparr>dh_group_number := 3\<rparr>) = (Inl NOT_FOUND, [])"
proof -
  let ?A = "allocator_alloc_thing\<lparr>dh_group_number := MODP_2048_BIT\<rparr>"
  let ?B = "allocator_alloc_thing\<lparr>dh_group_number := 3\<rparr>"
  have a: "(dh_group_number ?A, 2048) \<in> set supported_groups"
    by (simp add: supported_groups_def)
  have b: "dh_group_number ?B \<notin> fst ` set supported_groups"
    by (simp add: supported_groups_def MODP_defs)
  obtain e this' where "e \<in> set modulus_info_entries" "group e = dh_group_number ?A"
      "set_modulus ?A = (Inr this', [Acquire (Big_integer Modulus)])"
      "modulus_length this' = 2048 div 8" "generator this' = 2"
      "length (modulus_info_entry_t.modulus e) = 2048 div 8"
      "bit (hd (modulus_info_entry_t.modulus e)) 7"
    using set_modulus_resolves_supported_groups [of ?A, THEN conjunct1, rule_format, OF a]
    by blast
  then have "\<exists>e this'. e \<in> set modulus_info_entries \<and> group e = MODP_2048_BIT
         \<and> set_modulus ?A = (Inr this', [Acquire (Big_integer Modulus)])
         \<and> modulus_length this' = 256 \<and> generator this' = 2
         \<and> length (modulus_info_entry_t.modulus e) = 256
         \<and> bit (hd (modulus_info_entry_t.modulus e)) 7"
    by (intro exI [of _ e] exI [of _ this']) simp
  moreover have "set_modulus ?B = (Inl NOT_FOUND, [])"
    using set_modulus_resolves_supported_groups [of ?B, THEN conjunct2, rule_format, OF b] .
  ultimately show ?thesis using a b by blast
qed

text \<open>
  C9: for every entry of the table and every \<open>x\<close> below its modulus, \<open>integer_to_bytes\<close> at the
  width \<open>modulus_length\<close> succeeds with a chunk of exactly \<open>modulus_length\<close> bytes, and
  \<open>bytes_to_integer\<close> of that chunk is \<open>x\<close> again.
\<close>

theorem integer_to_bytes_round_trip:
  assumes "e \<in> set modulus_info_entries"
    and "x < bytes_to_integer (modulus_info_entry_t.modulus e)"
  shows "\<exists>chunk. integer_to_bytes x (modulus_info_entry_t.modulus_length e) = Inr chunk
           \<and> bytes_to_integer chunk = x
           \<and> length chunk = modulus_info_entry_t.modulus_length e"
proof -
  have "bytes_to_integer (modulus_info_entry_t.modulus e)
          < 256 ^ length (modulus_info_entry_t.modulus e)"
    by (rule bytes_to_integer_less)
  with assms have "x < 256 ^ modulus_info_entry_t.modulus_length e"
    by (simp add: modulus_info_entries_sound(1))
  then obtain chunk where c: "integer_to_bytes x (modulus_info_entry_t.modulus_length e) = Inr chunk"
    using integer_to_bytes_fits by blast
  with integer_to_bytes_Inr [OF c] show ?thesis by simp
qed

theorem integer_to_bytes_round_trip_witness:
  "hd modulus_info_entries \<in> set modulus_info_entries
   \<and> 1000 < bytes_to_integer (modulus_info_entry_t.modulus (hd modulus_info_entries))
   \<and> (\<exists>chunk. integer_to_bytes 1000 (modulus_info_entry_t.modulus_length (hd modulus_info_entries))
                 = Inr chunk
        \<and> bytes_to_integer chunk = 1000
        \<and> length chunk = modulus_info_entry_t.modulus_length (hd modulus_info_entries))"
proof -
  have a: "hd modulus_info_entries \<in> set modulus_info_entries"
    unfolding modulus_info_entries_def by simp
  have "modulus_info_entry_t.modulus (hd modulus_info_entries) = group1_modulus"
    unfolding modulus_info_entries_def by simp
  moreover have "1000 < bytes_to_integer group1_modulus"
    unfolding group1_modulus_def bytes_to_integer_def by simp
  ultimately have b: "1000 < bytes_to_integer (modulus_info_entry_t.modulus (hd modulus_info_entries))"
    by simp
  from a b integer_to_bytes_round_trip [OF a b] show ?thesis by blast
qed


section \<open>The states of an exchange object\<close>

lemma mpz_powm_Mpz: "0 < n \<Longrightarrow> mpz_powm (Mpz b) (Mpz e) (Mpz n) = Mpz (b ^ e mod n)"
  by (simp add: mpz_powm_def mod_pow_eq)

lemma create_Some:
  assumes "diffie_hellman_create g alloc_ok helper_ok prime = (Some this, events)"
  shows "\<exists>e p. e \<in> set modulus_info_entries \<and> group e = g \<and> prime = Some p
           \<and> this = allocator_alloc_thing
                \<lparr>dh_group_number := g,
                  modulus := Mpz (bytes_to_integer (modulus_info_entry_t.modulus e)),
                  modulus_length := length (modulus_info_entry_t.modulus e),
                  generator := 2, my_prime := Mpz p\<rparr>
           \<and> events = [Acquire This, Acquire Gmp_helper, Acquire (Big_integer Modulus),
                       Acquire (Big_integer My_prime)]"
proof -
  let ?raw = "allocator_alloc_thing\<lparr>dh_group_number := g\<rparr>"
  from assms obtain this1 ev1 p where sm: "set_modulus ?raw = (Inr this1, ev1)"
    and p: "prime = Some p"
    and t: "this = this1\<lparr>my_prime := Mpz p, my_public_value_is_computed := False,
                            shared_secret_is_computed := False\<rparr>"
    and ev: "events = [Acquire This, Acquire Gmp_helper] @ ev1 @ [Acquire (Big_integer My_prime)]"
    by (auto simp: diffie_hellman_create_def split: if_splits prod.splits sum.splits option.splits)
  from set_modulus_loop_Inr [OF sm [unfolded set_modulus_def]]
  obtain e where e: "e \<in> set modulus_info_entries" "group e = g"
    and this1: "this1 = ?raw\<lparr>modulus := chunk_to_mpz (take (modulus_info_entry_t.modulus_length e)
                                                     (modulus_info_entry_t.modulus e)),
                          modulus_length := modulus_info_entry_t.modulus_length e,
                          generator := modulus_info_entry_t.generator e\<rparr>"
    and ev1: "ev1 = [Acquire (Big_integer Modulus)]"
    by auto
  note sound = modulus_info_entries_sound [OF e(1)]
  have "this = allocator_alloc_thing
                \<lparr>dh_group_number := g,
                  modulus := Mpz (bytes_to_integer (modulus_info_entry_t.modulus e)),
                  modulus_length := length (modulus_info_entry_t.modulus e),
                  generator := 2, my_prime := Mpz p\<rparr>"
    by (simp add: t this1 sound(1,4) chunk_to_mpz_def allocator_alloc_thing_def)
  with e p ev ev1 show ?thesis by auto
qed

lemma consistent_create:
  assumes "diffie_hellman_create g alloc_ok helper_ok prime = (Some this, events)"
  shows "consistent this" and "\<not> my_public_value_is_computed this"
    and "\<not> shared_secret_is_computed this" and "generator this = 2"
proof -
  from create_Some [OF assms] obtain e p where e: "e \<in> set modulus_info_entries"
    and t: "this = allocator_alloc_thing
                \<lparr>dh_group_number := g,
                  modulus := Mpz (bytes_to_integer (modulus_info_entry_t.modulus e)),
                  modulus_length := length (modulus_info_entry_t.modulus e),
                  generator := 2, my_prime := Mpz p\<rparr>"
    by blast
  note sound = modulus_info_entries_sound [OF e]
  have "hd (modulus_info_entry_t.modulus e) \<noteq> 0" by (simp add: sound(3))
  with sound(2) have pos: "0 < bytes_to_integer (modulus_info_entry_t.modulus e)"
    by (rule bytes_to_integer_pos)
  have less: "bytes_to_integer (modulus_info_entry_t.modulus e)
                < 256 ^ length (modulus_info_entry_t.modulus e)"
    by (rule bytes_to_integer_less)
  from pos less show "consistent this"
    by (simp add: t consistent_def allocator_alloc_thing_def)
  show "\<not> my_public_value_is_computed this" "\<not> shared_secret_is_computed this"
    "generator this = 2"
    by (simp_all add: t allocator_alloc_thing_def)
qed

lemma get_my_public_value_frame:
  assumes "get_my_public_value this = (r, this', events)"
  shows "modulus this' = modulus this" and "modulus_length this' = modulus_length this"
    and "my_prime this' = my_prime this" and "generator this' = generator this"
    and "other_public_value this' = other_public_value this"
    and "shared_secret this' = shared_secret this"
    and "shared_secret_is_computed this' = shared_secret_is_computed this"
    and "dh_group_number this' = dh_group_number this"
    and "my_public_value_is_computed this'"
  using assms
  by (auto simp: get_my_public_value_def compute_public_value_def split: if_splits)

lemma set_other_public_value_frame:
  assumes "set_other_public_value this chunk = (r, this', events)"
  shows "modulus this' = modulus this" and "modulus_length this' = modulus_length this"
    and "my_prime this' = my_prime this" and "generator this' = generator this"
    and "my_public_value this' = my_public_value this"
    and "my_public_value_is_computed this' = my_public_value_is_computed this"
    and "dh_group_number this' = dh_group_number this"
    and "shared_secret_is_computed this'"
    and "other_public_value this' = Mpz (bytes_to_integer chunk)"
    and "shared_secret this' = mpz_powm (Mpz (bytes_to_integer chunk)) (my_prime this) (modulus this)"
    and "r = Inr ()"
    and "events = [Acquire (Big_integer Other_public_value), Acquire (Big_integer Shared_secret),
                   Powm Shared_secret]"
  using assms
  by (auto simp: set_other_public_value_def compute_shared_secret_def chunk_to_mpz_def)

lemma consistent_get_my_public_value:
  assumes "consistent this" and "get_my_public_value this = (r, this', events)"
  shows "consistent this'"
proof -
  note frame = get_my_public_value_frame [OF assms(2)]
  from assms(1) obtain m p where mp: "modulus this = Mpz m" "0 < m" "my_prime this = Mpz p"
    by (auto simp: consistent_def)
  have "my_public_value this' = Mpz (unat (generator this) ^ p mod m)"
  proof (cases "my_public_value_is_computed this")
    case True
    with assms show ?thesis
      by (auto simp: consistent_def get_my_public_value_def mp)
  next
    case False
    with assms(2) show ?thesis
      by (auto simp: get_my_public_value_def compute_public_value_def mp mpz_powm_Mpz)
  qed
  with assms(1) mp frame show ?thesis
    by (auto simp: consistent_def)
qed

lemma consistent_set_other_public_value:
  assumes "consistent this" and "set_other_public_value this chunk = (r, this', events)"
  shows "consistent this'"
proof -
  note frame = set_other_public_value_frame [OF assms(2)]
  from assms(1) obtain m p where mp: "modulus this = Mpz m" "0 < m" "my_prime this = Mpz p"
    by (auto simp: consistent_def)
  have "shared_secret this' = Mpz (bytes_to_integer chunk ^ p mod m)"
    by (simp add: frame(10) mp mpz_powm_Mpz)
  with assms(1) mp frame(1-9) show ?thesis
    by (auto simp: consistent_def)
qed

lemma consistent_call_step: "consistent this \<Longrightarrow> consistent (call_step this c)"
proof (cases c)
  case Get_my_public_value
  assume "consistent this"
  then show ?thesis
    using consistent_get_my_public_value [of this] Get_my_public_value
    by (metis call_step.simps(1) prod.collapse)
next
  case (Set_other_public_value chunk)
  assume "consistent this"
  then show ?thesis
    using consistent_set_other_public_value [of this chunk] Set_other_public_value
    by (metis call_step.simps(2) prod.collapse)
qed simp_all

lemma consistent_after_calls: "consistent this \<Longrightarrow> consistent (after_calls this calls)"
  unfolding after_calls_def
  by (induction calls arbitrary: this) (simp_all add: consistent_call_step)

lemma call_step_frame:
  "modulus (call_step this c) = modulus this"
  "modulus_length (call_step this c) = modulus_length this"
  "my_prime (call_step this c) = my_prime this"
  "generator (call_step this c) = generator this"
  by (cases c; simp add: get_my_public_value_def compute_public_value_def
      set_other_public_value_def compute_shared_secret_def)+

lemma after_calls_frame:
  "modulus (after_calls this calls) = modulus this"
  "modulus_length (after_calls this calls) = modulus_length this"
  "my_prime (after_calls this calls) = my_prime this"
  "generator (after_calls this calls) = generator this"
  unfolding after_calls_def
  by (induction calls arbitrary: this; simp add: call_step_frame)+


lemma consistentE:
  assumes "consistent this"
  obtains m p where "modulus this = Mpz m" and "my_prime this = Mpz p" and "0 < m"
    and "m < 256 ^ modulus_length this"
  using assms unfolding consistent_def by blast

lemma integer_to_bytes_mod:
  assumes "0 < m" and "m < 256 ^ w"
  shows "\<exists>c. integer_to_bytes (x mod m) w = Inr c \<and> length c = w \<and> bytes_to_integer c = x mod m
           \<and> c = replicate (w - length (natural_encoding (x mod m))) 0 @ natural_encoding (x mod m)"
proof -
  from assms have "x mod m < 256 ^ w"
    using mod_less_divisor [of m x] by linarith
  from integer_to_bytes_fits [OF this] obtain c where c: "integer_to_bytes (x mod m) w = Inr c"
    by blast
  from integer_to_bytes_Inr [OF c] c show ?thesis by blast
qed

lemma get_my_public_value_result:
  assumes "consistent this" and "modulus this = Mpz m" and "my_prime this = Mpz p"
  shows "fst (get_my_public_value this)
           = integer_to_bytes (unat (generator this) ^ p mod m) (modulus_length this)"
proof -
  obtain r this' events where g: "get_my_public_value this = (r, this', events)"
    by (cases "get_my_public_value this") auto
  from consistent_get_my_public_value [OF assms(1) g] get_my_public_value_frame [OF g] assms(2,3)
  have "my_public_value this' = Mpz (unat (generator this) ^ p mod m)"
    and "modulus_length this' = modulus_length this"
    by (auto simp: consistent_def)
  moreover from g have "r = mpz_to_chunk (my_public_value this') (modulus_length this')"
    by (auto simp: get_my_public_value_def split: if_splits prod.splits)
  ultimately show ?thesis by (simp add: g mpz_to_chunk_def)
qed

lemma get_shared_secret_result:
  assumes "consistent this" and "modulus this = Mpz m" and "my_prime this = Mpz p"
  shows "get_shared_secret (fst (snd (set_other_public_value this chunk)))
           = integer_to_bytes (bytes_to_integer chunk ^ p mod m) (modulus_length this)"
proof -
  obtain r this' events where s: "set_other_public_value this chunk = (r, this', events)"
    by (cases "set_other_public_value this chunk") auto
  note frame = set_other_public_value_frame [OF s]
  from assms(1,2) have "0 < m" by (auto simp: consistent_def)
  then have "shared_secret this' = Mpz (bytes_to_integer chunk ^ p mod m)"
    by (simp add: frame(10) assms(2,3) mpz_powm_Mpz)
  with frame(2,8) show ?thesis
    by (simp add: s get_shared_secret_def mpz_to_chunk_def)
qed

lemma same_group_same_entry:
  assumes "e \<in> set modulus_info_entries" and "e' \<in> set modulus_info_entries"
    and "group e = group e'"
  shows "e = e'"
  using assms distinct_groups by (meson distinct_map inj_onD)

lemma create_supported:
  assumes "e \<in> set modulus_info_entries"
  shows "\<exists>this. diffie_hellman_create (group e) True True (Some p)
           = (Some this, [Acquire This, Acquire Gmp_helper, Acquire (Big_integer Modulus),
                          Acquire (Big_integer My_prime)])"
proof -
  let ?raw = "allocator_alloc_thing\<lparr>dh_group_number := group e\<rparr>"
  have "group e = dh_group_number ?raw" by simp
  from set_modulus_loop_found [OF distinct_groups assms this]
  show ?thesis by (simp add: diffie_hellman_create_def set_modulus_def)
qed

lemma group_hd_entries:
  "hd modulus_info_entries \<in> set modulus_info_entries"
  "group (hd modulus_info_entries) = MODP_768_BIT"
  unfolding modulus_info_entries_def by simp_all

lemma create_MODP_768_BIT:
  "\<exists>this. diffie_hellman_create MODP_768_BIT True True (Some p)
           = (Some this, [Acquire This, Acquire Gmp_helper, Acquire (Big_integer Modulus),
                          Acquire (Big_integer My_prime)])"
  using create_supported [OF group_hd_entries(1), of p] by (simp add: group_hd_entries(2))

section \<open>The exchange\<close>

text \<open>
  C1: two objects \<open>a\<close> and \<open>b\<close> created for the same group, each in any state it can be in
  when the call is made: both return their public value, and when \<open>a\<close> is given the public
  value of \<open>b\<close> and \<open>b\<close> that of \<open>a\<close>, \<^verbatim>\<open>get_shared_secret\<close> succeeds on both with the same
  chunk, which encodes \<open>generator ^ (x * y) mod modulus\<close> for the private exponents \<open>x\<close>, \<open>y\<close>.
\<close>

theorem shared_secret_agreement:
  assumes "diffie_hellman_create g alloc_a helper_a prime_a = (Some a, events_a)"
    and "diffie_hellman_create g alloc_b helper_b prime_b = (Some b, events_b)"
  shows "\<exists>pub_a pub_b secret x y m.
      fst (get_my_public_value (after_calls a calls_a)) = Inr pub_a
    \<and> fst (get_my_public_value (after_calls b calls_b)) = Inr pub_b
    \<and> get_shared_secret (fst (snd (set_other_public_value (after_calls a calls_a') pub_b)))
        = Inr secret
    \<and> get_shared_secret (fst (snd (set_other_public_value (after_calls b calls_b') pub_a)))
        = Inr secret
    \<and> prime_a = Some x \<and> prime_b = Some y \<and> modulus a = Mpz m \<and> modulus b = Mpz m
    \<and> bytes_to_integer secret = unat (generator a) ^ (x * y) mod m"
proof -
  from create_Some [OF assms(1)] obtain ea x where ea: "ea \<in> set modulus_info_entries"
    "group ea = g" and x: "prime_a = Some x"
    and a: "modulus a = Mpz (bytes_to_integer (modulus_info_entry_t.modulus ea))"
      "modulus_length a = length (modulus_info_entry_t.modulus ea)" "generator a = 2"
      "my_prime a = Mpz x"
    by (auto simp: allocator_alloc_thing_def)
  from create_Some [OF assms(2)] obtain eb y where eb: "eb \<in> set modulus_info_entries"
    "group eb = g" and y: "prime_b = Some y"
    and b: "modulus b = Mpz (bytes_to_integer (modulus_info_entry_t.modulus eb))"
      "modulus_length b = length (modulus_info_entry_t.modulus eb)" "generator b = 2"
      "my_prime b = Mpz y"
    by (auto simp: allocator_alloc_thing_def)
  from ea eb have same: "eb = ea" by (simp add: same_group_same_entry)
  define m where "m = bytes_to_integer (modulus_info_entry_t.modulus ea)"
  define w where "w = length (modulus_info_entry_t.modulus ea)"
  note ca = consistent_create(1) [OF assms(1)] and cb = consistent_create(1) [OF assms(2)]
  from consistentE [OF ca] a(1,2) have m: "0 < m" "m < 256 ^ w"
    by (auto simp: m_def w_def)
  have A: "consistent (after_calls a cs)" "modulus (after_calls a cs) = Mpz m"
    "my_prime (after_calls a cs) = Mpz x" "generator (after_calls a cs) = 2"
    "modulus_length (after_calls a cs) = w" for cs
    using consistent_after_calls [OF ca] a by (simp_all add: after_calls_frame m_def w_def)
  have B: "consistent (after_calls b cs)" "modulus (after_calls b cs) = Mpz m"
    "my_prime (after_calls b cs) = Mpz y" "generator (after_calls b cs) = 2"
    "modulus_length (after_calls b cs) = w" for cs
    using consistent_after_calls [OF cb] b same by (simp_all add: after_calls_frame m_def w_def)
  from integer_to_bytes_mod [OF m, of "2 ^ x"] obtain pub_a
    where pub_a: "integer_to_bytes (2 ^ x mod m) w = Inr pub_a" "bytes_to_integer pub_a = 2 ^ x mod m"
    by blast
  from integer_to_bytes_mod [OF m, of "2 ^ y"] obtain pub_b
    where pub_b: "integer_to_bytes (2 ^ y mod m) w = Inr pub_b" "bytes_to_integer pub_b = 2 ^ y mod m"
    by blast
  have pow: "(2 ^ y mod m) ^ x mod m = 2 ^ (x * y) mod m" "(2 ^ x mod m) ^ y mod m = 2 ^ (x * y) mod m"
    by (simp_all add: power_mod power_mult [symmetric] mult.commute)
  from integer_to_bytes_mod [OF m, of "2 ^ (x * y)"] obtain secret
    where secret: "integer_to_bytes (2 ^ (x * y) mod m) w = Inr secret"
      "bytes_to_integer secret = 2 ^ (x * y) mod m"
    by blast
  have "fst (get_my_public_value (after_calls a calls_a)) = Inr pub_a"
    using get_my_public_value_result [OF A(1,2,3), of calls_a] by (simp add: A pub_a)
  moreover have "fst (get_my_public_value (after_calls b calls_b)) = Inr pub_b"
    using get_my_public_value_result [OF B(1,2,3), of calls_b] by (simp add: B pub_b)
  moreover have "get_shared_secret (fst (snd (set_other_public_value (after_calls a calls_a') pub_b)))
      = Inr secret"
    using get_shared_secret_result [OF A(1,2,3), of calls_a' pub_b]
    by (simp add: A pub_b pow secret)
  moreover have "get_shared_secret (fst (snd (set_other_public_value (after_calls b calls_b') pub_a)))
      = Inr secret"
    using get_shared_secret_result [OF B(1,2,3), of calls_b' pub_a]
    by (simp add: B pub_a pow secret)
  moreover have "modulus a = Mpz m" "modulus b = Mpz m" "unat (generator a) = 2"
    using a b same by (simp_all add: m_def)
  ultimately show ?thesis using x y secret(2) by auto
qed

theorem shared_secret_agreement_witness:
  "\<exists>a b events_a events_b.
      diffie_hellman_create MODP_768_BIT True True (Some 3) = (Some a, events_a)
    \<and> diffie_hellman_create MODP_768_BIT True True (Some 5) = (Some b, events_b)
    \<and> (\<exists>pub_a pub_b secret m.
          fst (get_my_public_value (after_calls a [])) = Inr pub_a
        \<and> fst (get_my_public_value (after_calls b [Get_my_public_value])) = Inr pub_b
        \<and> get_shared_secret (fst (snd (set_other_public_value
              (after_calls a [Get_my_public_value]) pub_b))) = Inr secret
        \<and> get_shared_secret (fst (snd (set_other_public_value (after_calls b []) pub_a)))
              = Inr secret
        \<and> modulus a = Mpz m \<and> modulus b = Mpz m
        \<and> bytes_to_integer secret = unat (generator a) ^ (3 * 5) mod m)"
proof -
  from create_MODP_768_BIT [of 3] obtain a events_a
    where a: "diffie_hellman_create MODP_768_BIT True True (Some 3) = (Some a, events_a)"
    by blast
  from create_MODP_768_BIT [of 5] obtain b events_b
    where b: "diffie_hellman_create MODP_768_BIT True True (Some 5) = (Some b, events_b)"
    by blast
  from shared_secret_agreement [OF a b, of "[]" "[Get_my_public_value]" "[Get_my_public_value]" "[]"]
  have "\<exists>pub_a pub_b secret m.
          fst (get_my_public_value (after_calls a [])) = Inr pub_a
        \<and> fst (get_my_public_value (after_calls b [Get_my_public_value])) = Inr pub_b
        \<and> get_shared_secret (fst (snd (set_other_public_value
              (after_calls a [Get_my_public_value]) pub_b))) = Inr secret
        \<and> get_shared_secret (fst (snd (set_other_public_value (after_calls b []) pub_a)))
              = Inr secret
        \<and> modulus a = Mpz m \<and> modulus b = Mpz m
        \<and> bytes_to_integer secret = unat (generator a) ^ (3 * 5) mod m"
    by auto
  with a b show ?thesis by blast
qed


lemma integer_to_bytes_encoding:
  "integer_to_bytes v width = Inr chunk \<Longrightarrow> left_padded_encoding width v chunk"
  using integer_to_bytes_Inr [of v width chunk] by (simp add: left_padded_encoding_def)

lemma integer_to_bytes_cases:
  "(\<exists>chunk. integer_to_bytes v width = Inr chunk \<and> left_padded_encoding width v chunk \<and> v < 256 ^ width)
   \<or> (integer_to_bytes v width = Inl FAILED \<and> 256 ^ width \<le> v)"
proof (cases "v < 256 ^ width")
  case True
  from integer_to_bytes_fits [OF True] integer_to_bytes_encoding True show ?thesis by blast
next
  case False
  then have "256 ^ width \<le> v" by simp
  from integer_to_bytes_too_long [OF this] this show ?thesis by blast
qed

lemma consistent_flags:
  assumes "consistent this"
  shows "(my_public_value this \<noteq> Uninitialised) = my_public_value_is_computed this"
    and "(other_public_value this \<noteq> Uninitialised) = shared_secret_is_computed this"
    and "(shared_secret this \<noteq> Uninitialised) = shared_secret_is_computed this"
    and "modulus this \<noteq> Uninitialised" and "my_prime this \<noteq> Uninitialised"
  using assms by (auto simp: consistent_def split: if_splits)

lemma consistent_shared:
  assumes "consistent this" and "shared_secret_is_computed this"
    and "modulus this = Mpz m" and "my_prime this = Mpz p"
  shows "\<exists>y. other_public_value this = Mpz y \<and> shared_secret this = Mpz (y ^ p mod m)"
  using assms by (auto simp: consistent_def)

text \<open>
  C2: in every state of a created object, \<^verbatim>\<open>get_my_public_value\<close> returns the encoding of the
  public value at \<open>modulus_length\<close> bytes; once the shared secret is computed,
  \<^verbatim>\<open>get_shared_secret\<close> returns the encoding of the shared secret at \<open>modulus_length\<close> bytes,
  and every chunk that \<^verbatim>\<open>get_other_public_value\<close> returns is the encoding of the peer's value at
  \<open>modulus_length\<close> bytes (it returns \<^verbatim>\<open>FAILED\<close> only for a peer value of more than
  \<open>modulus_length\<close> bytes). An encoding has exactly that length, is big-endian and is padded
  with zero bytes on the left.
\<close>

theorem getters_return_fixed_width_chunks:
  assumes "diffie_hellman_create g alloc_ok helper_ok prime = (Some a, events_a)"
  shows "let this = after_calls a calls in
       (\<exists>c v. fst (get_my_public_value this) = Inr c
          \<and> my_public_value (fst (snd (get_my_public_value this))) = Mpz v
          \<and> left_padded_encoding (modulus_length this) v c)
     \<and> (if shared_secret_is_computed this
        then (\<exists>c v. get_shared_secret this = Inr c \<and> shared_secret this = Mpz v
                \<and> left_padded_encoding (modulus_length this) v c)
           \<and> (\<exists>v. other_public_value this = Mpz v
                \<and> (case get_other_public_value this of
                      Inr c \<Rightarrow> left_padded_encoding (modulus_length this) v c
                    | Inl status \<Rightarrow> status = FAILED \<and> 256 ^ modulus_length this \<le> v))
        else get_shared_secret this = Inl FAILED \<and> get_other_public_value this = Inl FAILED)"
proof -
  define this where "this = after_calls a calls"
  have c: "consistent this"
    unfolding this_def by (rule consistent_after_calls [OF consistent_create(1) [OF assms]])
  from consistentE [OF c] obtain m p where mp: "modulus this = Mpz m" "my_prime this = Mpz p"
    "0 < m" "m < 256 ^ modulus_length this" by blast
  obtain r this' events where g: "get_my_public_value this = (r, this', events)"
    by (cases "get_my_public_value this") auto
  have 1: "\<exists>c v. fst (get_my_public_value this) = Inr c
          \<and> my_public_value (fst (snd (get_my_public_value this))) = Mpz v
          \<and> left_padded_encoding (modulus_length this) v c"
  proof -
    let ?v = "unat (generator this) ^ p mod m"
    from integer_to_bytes_mod [OF mp(3,4), of "unat (generator this) ^ p"]
    obtain ch where ch: "integer_to_bytes ?v (modulus_length this) = Inr ch" by blast
    from consistent_get_my_public_value [OF c g] get_my_public_value_frame [OF g] mp(1,2)
    have "my_public_value this' = Mpz ?v" by (auto simp: consistent_def)
    with ch integer_to_bytes_encoding [OF ch] get_my_public_value_result [OF c mp(1,2)]
    show ?thesis by (simp add: g)
  qed
  have 2: "get_shared_secret this = Inl FAILED \<and> get_other_public_value this = Inl FAILED"
    if "\<not> shared_secret_is_computed this"
    using that by (simp add: get_shared_secret_def get_other_public_value_def)
  have 3: "(\<exists>c v. get_shared_secret this = Inr c \<and> shared_secret this = Mpz v
                \<and> left_padded_encoding (modulus_length this) v c)
           \<and> (\<exists>v. other_public_value this = Mpz v
                \<and> (case get_other_public_value this of
                      Inr c \<Rightarrow> left_padded_encoding (modulus_length this) v c
                    | Inl status \<Rightarrow> status = FAILED \<and> 256 ^ modulus_length this \<le> v))"
    if s: "shared_secret_is_computed this"
  proof -
    from consistent_shared [OF c s mp(1,2)] obtain y where y: "other_public_value this = Mpz y"
      "shared_secret this = Mpz (y ^ p mod m)" by blast
    from integer_to_bytes_mod [OF mp(3,4), of "y ^ p"]
    obtain ch where ch: "integer_to_bytes (y ^ p mod m) (modulus_length this) = Inr ch" by blast
    have "get_shared_secret this = Inr ch"
      using s y ch by (simp add: get_shared_secret_def mpz_to_chunk_def)
    with integer_to_bytes_encoding [OF ch] y(2)
    have a: "\<exists>c v. get_shared_secret this = Inr c \<and> shared_secret this = Mpz v
                \<and> left_padded_encoding (modulus_length this) v c" by blast
    have o: "get_other_public_value this = integer_to_bytes y (modulus_length this)"
      using s y by (simp add: get_other_public_value_def mpz_to_chunk_def)
    from integer_to_bytes_cases [of y "modulus_length this"]
    have "case get_other_public_value this of
                      Inr c \<Rightarrow> left_padded_encoding (modulus_length this) y c
                    | Inl status \<Rightarrow> status = FAILED \<and> 256 ^ modulus_length this \<le> y"
      unfolding o by auto
    with y(1) a show ?thesis by blast
  qed
  from 1 2 3 show ?thesis unfolding this_def [symmetric] Let_def by simp
qed

theorem getters_return_fixed_width_chunks_witness:
  "\<exists>a events_a.
      diffie_hellman_create MODP_768_BIT True True (Some 3) = (Some a, events_a)
    \<and> shared_secret_is_computed (after_calls a [Set_other_public_value [7]])
    \<and> (\<exists>c v. fst (get_my_public_value (after_calls a [Set_other_public_value [7]])) = Inr c
          \<and> left_padded_encoding (modulus_length a) v c)
    \<and> (\<exists>c v. get_shared_secret (after_calls a [Set_other_public_value [7]]) = Inr c
          \<and> left_padded_encoding (modulus_length a) v c)"
proof -
  from create_MODP_768_BIT [of 3] obtain a events_a
    where a: "diffie_hellman_create MODP_768_BIT True True (Some 3) = (Some a, events_a)"
    by blast
  let ?s = "after_calls a [Set_other_public_value [7]]"
  have s: "shared_secret_is_computed ?s"
    by (simp add: after_calls_def set_other_public_value_def compute_shared_secret_def)
  have l: "modulus_length ?s = modulus_length a"
    by (rule after_calls_frame)
  from getters_return_fixed_width_chunks [OF a, of "[Set_other_public_value [7]]"] s
  have "(\<exists>c v. fst (get_my_public_value ?s) = Inr c
          \<and> left_padded_encoding (modulus_length a) v c)
    \<and> (\<exists>c v. get_shared_secret ?s = Inr c
          \<and> left_padded_encoding (modulus_length a) v c)"
    unfolding Let_def l by (simp only: if_True) blast
  with a s show ?thesis by blast
qed


text \<open>
  C5: in every state of a created object, \<^verbatim>\<open>set_other_public_value\<close> returns \<^verbatim>\<open>SUCCESS\<close>,
  stores the decoded chunk as the peer's value, and within the same call stores
  \<open>peer ^ private_exponent mod modulus\<close> as the shared secret and sets the flag, with exactly one
  call of \<^verbatim>\<open>mpz_powm\<close>; \<^verbatim>\<open>get_shared_secret\<close> then returns the encoding of exactly that
  value.
\<close>

theorem set_other_public_value_computes_shared_secret:
  assumes "diffie_hellman_create g alloc_ok helper_ok prime = (Some a, events_a)"
  shows "case set_other_public_value (after_calls a calls) chunk of
           (r, this', events) \<Rightarrow>
             r = Inr ()
           \<and> other_public_value this' = Mpz (bytes_to_integer chunk)
           \<and> shared_secret_is_computed this'
           \<and> events = [Acquire (Big_integer Other_public_value),
                       Acquire (Big_integer Shared_secret), Powm Shared_secret]
           \<and> length (filter (\<lambda>e. e = Powm Shared_secret) events) = 1
           \<and> (\<exists>m p c. modulus a = Mpz m \<and> prime = Some p
                \<and> shared_secret this' = Mpz (bytes_to_integer chunk ^ p mod m)
                \<and> get_shared_secret this' = Inr c
                \<and> left_padded_encoding (modulus_length a) (bytes_to_integer chunk ^ p mod m) c)"
proof -
  define this where "this = after_calls a calls"
  have c: "consistent this"
    unfolding this_def by (rule consistent_after_calls [OF consistent_create(1) [OF assms]])
  from create_Some [OF assms] obtain p where p: "prime = Some p" "my_prime a = Mpz p"
    by (auto simp: allocator_alloc_thing_def)
  from consistentE [OF c] p(2) obtain m where m: "modulus this = Mpz m" "my_prime this = Mpz p"
    "0 < m" "m < 256 ^ modulus_length this"
    unfolding this_def after_calls_frame by auto
  have fr: "modulus this = modulus a" "modulus_length this = modulus_length a"
    unfolding this_def by (rule after_calls_frame)+
  obtain r this' events where s: "set_other_public_value this chunk = (r, this', events)"
    by (cases "set_other_public_value this chunk") auto
  note frame = set_other_public_value_frame [OF s]
  let ?v = "bytes_to_integer chunk ^ p mod m"
  have sec: "shared_secret this' = Mpz ?v"
    by (simp add: frame(10) m mpz_powm_Mpz)
  from integer_to_bytes_mod [OF m(3,4), of "bytes_to_integer chunk ^ p"]
  obtain ch where ch: "integer_to_bytes ?v (modulus_length this) = Inr ch" by blast
  have "get_shared_secret this' = Inr ch"
    using get_shared_secret_result [OF c m(1,2), of chunk] ch by (simp add: s)
  with integer_to_bytes_encoding [OF ch] sec m(1) p(1) fr
  have "\<exists>m p c. modulus a = Mpz m \<and> prime = Some p
                \<and> shared_secret this' = Mpz (bytes_to_integer chunk ^ p mod m)
                \<and> get_shared_secret this' = Inr c
                \<and> left_padded_encoding (modulus_length a) (bytes_to_integer chunk ^ p mod m) c"
    by auto
  with frame(8,9,11,12) show ?thesis
    unfolding this_def [symmetric] s by simp
qed

theorem set_other_public_value_computes_shared_secret_witness:
  "\<exists>a events_a.
      diffie_hellman_create MODP_768_BIT True True (Some 3) = (Some a, events_a)
    \<and> (case set_other_public_value (after_calls a [Get_my_public_value]) [7] of
          (r, this', events) \<Rightarrow>
             r = Inr ()
           \<and> other_public_value this' = Mpz 7
           \<and> shared_secret_is_computed this'
           \<and> length (filter (\<lambda>e. e = Powm Shared_secret) events) = 1
           \<and> (\<exists>m c. modulus a = Mpz m
                \<and> shared_secret this' = Mpz (7 ^ 3 mod m)
                \<and> get_shared_secret this' = Inr c
                \<and> left_padded_encoding (modulus_length a) (7 ^ 3 mod m) c))"
proof -
  from create_MODP_768_BIT [of 3] obtain a events_a
    where a: "diffie_hellman_create MODP_768_BIT True True (Some 3) = (Some a, events_a)"
    by blast
  have seven: "bytes_to_integer [7] = 7"
    by (simp add: bytes_to_integer_def)
  obtain r this' events
    where eq: "set_other_public_value (after_calls a [Get_my_public_value]) [7] = (r, this', events)"
    by (cases "set_other_public_value (after_calls a [Get_my_public_value]) [7]") auto
  from set_other_public_value_computes_shared_secret
    [OF a, where calls = "[Get_my_public_value]" and chunk = "[7]"]
  have "r = Inr () \<and> other_public_value this' = Mpz 7 \<and> shared_secret_is_computed this'
           \<and> length (filter (\<lambda>e. e = Powm Shared_secret) events) = 1
           \<and> (\<exists>m c. modulus a = Mpz m
                \<and> shared_secret this' = Mpz (7 ^ 3 mod m)
                \<and> get_shared_secret this' = Inr c
                \<and> left_padded_encoding (modulus_length a) (7 ^ 3 mod m) c)"
    unfolding eq seven by auto
  then have "case set_other_public_value (after_calls a [Get_my_public_value]) [7] of
          (r, this', events) \<Rightarrow>
             r = Inr ()
           \<and> other_public_value this' = Mpz 7
           \<and> shared_secret_is_computed this'
           \<and> length (filter (\<lambda>e. e = Powm Shared_secret) events) = 1
           \<and> (\<exists>m c. modulus a = Mpz m
                \<and> shared_secret this' = Mpz (7 ^ 3 mod m)
                \<and> get_shared_secret this' = Inr c
                \<and> left_padded_encoding (modulus_length a) (7 ^ 3 mod m) c)"
    unfolding eq by simp
  with a have conj: "diffie_hellman_create MODP_768_BIT True True (Some 3) = (Some a, events_a)
    \<and> (case set_other_public_value (after_calls a [Get_my_public_value]) [7] of
          (r, this', events) \<Rightarrow>
             r = Inr ()
           \<and> other_public_value this' = Mpz 7
           \<and> shared_secret_is_computed this'
           \<and> length (filter (\<lambda>e. e = Powm Shared_secret) events) = 1
           \<and> (\<exists>m c. modulus a = Mpz m
                \<and> shared_secret this' = Mpz (7 ^ 3 mod m)
                \<and> get_shared_secret this' = Inr c
                \<and> left_padded_encoding (modulus_length a) (7 ^ 3 mod m) c))"
    by (rule conjI)
  show ?thesis
    by (rule exI [of _ a], rule exI [of _ events_a]) (rule conj)
qed

text \<open>
  C6: every call of \<^verbatim>\<open>get_my_public_value\<close> on a created object, whatever calls came before
  (none, earlier \<^verbatim>\<open>get_my_public_value\<close> calls, \<^verbatim>\<open>set_other_public_value\<close> calls), returns
  the same chunk, the encoding of \<open>generator ^ private_exponent mod modulus\<close>. A call leaves the
  peer's value, the shared secret and its flag unchanged; it calls \<^verbatim>\<open>mpz_powm\<close> once when
  the value was not computed and not at all otherwise; a second call returns the same chunk,
  changes nothing and computes nothing.
\<close>

theorem get_my_public_value_memoized:
  assumes "diffie_hellman_create g alloc_ok helper_ok prime = (Some a, events_a)"
  shows "\<exists>pub x m.
      prime = Some x \<and> modulus a = Mpz m
    \<and> left_padded_encoding (modulus_length a) (unat (generator a) ^ x mod m) pub
    \<and> fst (get_my_public_value (after_calls a calls)) = Inr pub
    \<and> fst (get_my_public_value (after_calls a calls')) = Inr pub
    \<and> (case get_my_public_value (after_calls a calls) of
         (r, this1, events1) \<Rightarrow>
            other_public_value this1 = other_public_value (after_calls a calls)
          \<and> shared_secret this1 = shared_secret (after_calls a calls)
          \<and> shared_secret_is_computed this1 = shared_secret_is_computed (after_calls a calls)
          \<and> my_public_value this1 = Mpz (unat (generator a) ^ x mod m)
          \<and> events1 = (if my_public_value_is_computed (after_calls a calls) then []
                       else [Acquire Local_generator, Acquire (Big_integer My_public_value),
                             Powm My_public_value, Release Local_generator])
          \<and> get_my_public_value this1 = (r, this1, []))"
proof -
  from create_Some [OF assms] obtain x where x: "prime = Some x" "my_prime a = Mpz x"
    by (auto simp: allocator_alloc_thing_def)
  note ca = consistent_create(1) [OF assms]
  from consistentE [OF ca] obtain m where m: "modulus a = Mpz m" "0 < m"
    "m < 256 ^ modulus_length a" by auto
  let ?v = "unat (generator a) ^ x mod m"
  from integer_to_bytes_mod [OF m(2,3), of "unat (generator a) ^ x"]
  obtain pub where pub: "integer_to_bytes ?v (modulus_length a) = Inr pub" by blast
  have any: "fst (get_my_public_value (after_calls a cs)) = Inr pub" for cs
    using get_my_public_value_result [OF consistent_after_calls [OF ca, of cs], of m x]
    by (simp add: after_calls_frame m x pub)
  define this where "this = after_calls a calls"
  have c: "consistent this" unfolding this_def by (rule consistent_after_calls [OF ca])
  obtain r this1 events1 where g: "get_my_public_value this = (r, this1, events1)"
    by (cases "get_my_public_value this") auto
  note frame = get_my_public_value_frame [OF g]
  have fr: "modulus this = Mpz m" "my_prime this = Mpz x" "generator this = generator a"
    unfolding this_def by (simp_all add: after_calls_frame m x)
  from consistent_get_my_public_value [OF c g] frame fr
  have v: "my_public_value this1 = Mpz ?v" by (auto simp: consistent_def)
  have ev: "events1 = (if my_public_value_is_computed this then []
                       else [Acquire Local_generator, Acquire (Big_integer My_public_value),
                             Powm My_public_value, Release Local_generator])"
    using g by (auto simp: get_my_public_value_def compute_public_value_def split: if_splits)
  have again: "get_my_public_value this1 = (r, this1, [])"
    using g frame(9)
    by (auto simp: get_my_public_value_def compute_public_value_def split: if_splits)
  from x(1) m(1) integer_to_bytes_encoding [OF pub] any [of calls] any [of calls']
    frame(5,6,7) v ev again
  show ?thesis unfolding this_def [symmetric] g by simp
qed

theorem get_my_public_value_memoized_witness:
  "\<exists>a events_a pub.
      diffie_hellman_create MODP_768_BIT True True (Some 3) = (Some a, events_a)
    \<and> fst (get_my_public_value (after_calls a [])) = Inr pub
    \<and> fst (get_my_public_value (after_calls a [Get_my_public_value, Set_other_public_value [7]]))
        = Inr pub
    \<and> (case get_my_public_value (after_calls a []) of
         (r, this1, events1) \<Rightarrow>
            shared_secret this1 = shared_secret (after_calls a [])
          \<and> get_my_public_value this1 = (r, this1, []))"
proof -
  from create_MODP_768_BIT [of 3] obtain a events_a
    where a: "diffie_hellman_create MODP_768_BIT True True (Some 3) = (Some a, events_a)"
    by blast
  obtain r this1 events1
    where eq: "get_my_public_value (after_calls a []) = (r, this1, events1)"
    by (cases "get_my_public_value (after_calls a [])") auto
  from get_my_public_value_memoized
    [OF a, where calls = "[]" and calls' = "[Get_my_public_value, Set_other_public_value [7]]"]
  obtain pub where pub: "fst (get_my_public_value (after_calls a [])) = Inr pub"
    "fst (get_my_public_value (after_calls a [Get_my_public_value, Set_other_public_value [7]]))
        = Inr pub"
    "shared_secret this1 = shared_secret (after_calls a [])"
    "get_my_public_value this1 = (r, this1, [])"
    unfolding eq by auto
  from pub(3,4) have "case get_my_public_value (after_calls a []) of
         (r, this1, events1) \<Rightarrow>
            shared_secret this1 = shared_secret (after_calls a [])
          \<and> get_my_public_value this1 = (r, this1, [])"
    unfolding eq by simp
  with a pub(1,2)
  have conj: "diffie_hellman_create MODP_768_BIT True True (Some 3) = (Some a, events_a)
    \<and> fst (get_my_public_value (after_calls a [])) = Inr pub
    \<and> fst (get_my_public_value (after_calls a [Get_my_public_value, Set_other_public_value [7]]))
        = Inr pub
    \<and> (case get_my_public_value (after_calls a []) of
         (r, this1, events1) \<Rightarrow>
            shared_secret this1 = shared_secret (after_calls a [])
          \<and> get_my_public_value this1 = (r, this1, []))"
    by (intro conjI)
  show ?thesis
    by (rule exI [of _ a], rule exI [of _ events_a], rule exI [of _ pub]) (rule conj)
qed

text \<open>
  C8: in every state of a created object, \<^verbatim>\<open>destroy\<close> clears each big integer at most once
  and clears exactly those that are initialised: modulus and private exponent always (they are
  always initialised), the public value exactly when \<open>my_public_value_is_computed\<close> (exactly
  then it is initialised), the peer's value and the shared secret exactly when
  \<open>shared_secret_is_computed\<close> (exactly then both are initialised).
\<close>

theorem destroy_releases_what_is_initialised:
  assumes "diffie_hellman_create g alloc_ok helper_ok prime = (Some a, events_a)"
  shows "let this = after_calls a calls; released = destroy this in
       distinct released
     \<and> Release (Big_integer Modulus) \<in> set released \<and> modulus this \<noteq> Uninitialised
     \<and> Release (Big_integer My_prime) \<in> set released \<and> my_prime this \<noteq> Uninitialised
     \<and> (Release (Big_integer My_public_value) \<in> set released) = my_public_value_is_computed this
     \<and> (my_public_value this \<noteq> Uninitialised) = my_public_value_is_computed this
     \<and> (Release (Big_integer Other_public_value) \<in> set released) = shared_secret_is_computed this
     \<and> (other_public_value this \<noteq> Uninitialised) = shared_secret_is_computed this
     \<and> (Release (Big_integer Shared_secret) \<in> set released) = shared_secret_is_computed this
     \<and> (shared_secret this \<noteq> Uninitialised) = shared_secret_is_computed this
     \<and> (\<forall>f. (Release (Big_integer f) \<in> set released) = (mpz_of this f \<noteq> Uninitialised))
     \<and> Release This \<in> set released \<and> Release Gmp_helper \<in> set released"
proof -
  define this where "this = after_calls a calls"
  have c: "consistent this"
    unfolding this_def by (rule consistent_after_calls [OF consistent_create(1) [OF assms]])
  note flags = consistent_flags [OF c]
  have d: "distinct (destroy this)" by (simp add: destroy_def)
  have r: "Release (Big_integer Modulus) \<in> set (destroy this)"
    "Release (Big_integer My_prime) \<in> set (destroy this)"
    "(Release (Big_integer My_public_value) \<in> set (destroy this)) = my_public_value_is_computed this"
    "(Release (Big_integer Other_public_value) \<in> set (destroy this)) = shared_secret_is_computed this"
    "(Release (Big_integer Shared_secret) \<in> set (destroy this)) = shared_secret_is_computed this"
    "Release This \<in> set (destroy this)" "Release Gmp_helper \<in> set (destroy this)"
    by (simp_all add: destroy_def)
  have "(Release (Big_integer f) \<in> set (destroy this)) = (mpz_of this f \<noteq> Uninitialised)" for f
    by (cases f) (simp_all add: r flags)
  with d r flags show ?thesis unfolding this_def [symmetric] Let_def by simp
qed

theorem destroy_releases_what_is_initialised_witness:
  "\<exists>a events_a.
      diffie_hellman_create MODP_768_BIT True True (Some 3) = (Some a, events_a)
    \<and> destroy (after_calls a [Set_other_public_value [7]])
        = [Release Gmp_helper, Release (Big_integer Modulus), Release (Big_integer My_prime),
           Release (Big_integer Other_public_value), Release (Big_integer Shared_secret),
           Release This]
    \<and> my_public_value (after_calls a [Set_other_public_value [7]]) = Uninitialised
    \<and> other_public_value (after_calls a [Set_other_public_value [7]]) \<noteq> Uninitialised
    \<and> shared_secret (after_calls a [Set_other_public_value [7]]) \<noteq> Uninitialised
    \<and> modulus (after_calls a [Set_other_public_value [7]]) \<noteq> Uninitialised
    \<and> my_prime (after_calls a [Set_other_public_value [7]]) \<noteq> Uninitialised"
proof -
  from create_MODP_768_BIT [of 3] obtain a events_a
    where a: "diffie_hellman_create MODP_768_BIT True True (Some 3) = (Some a, events_a)"
    by blast
  let ?s = "after_calls a [Set_other_public_value [7]]"
  have f: "shared_secret_is_computed ?s" "\<not> my_public_value_is_computed ?s"
    using consistent_create(2) [OF a]
    by (simp_all add: after_calls_def set_other_public_value_def compute_shared_secret_def)
  then have "destroy ?s
        = [Release Gmp_helper, Release (Big_integer Modulus), Release (Big_integer My_prime),
           Release (Big_integer Other_public_value), Release (Big_integer Shared_secret),
           Release This]"
    by (simp add: destroy_def)
  moreover from destroy_releases_what_is_initialised [OF a, of "[Set_other_public_value [7]]"] f
  have "my_public_value ?s = Uninitialised \<and> other_public_value ?s \<noteq> Uninitialised
    \<and> shared_secret ?s \<noteq> Uninitialised \<and> modulus ?s \<noteq> Uninitialised
    \<and> my_prime ?s \<noteq> Uninitialised"
    unfolding Let_def by simp
  ultimately show ?thesis using a by blast
qed


lemma call_step_keeps_peer:
  assumes "\<not> sets_other c"
  shows "other_public_value (call_step this c) = other_public_value this"
    and "shared_secret (call_step this c) = shared_secret this"
    and "shared_secret_is_computed (call_step this c) = shared_secret_is_computed this"
  using assms
  by (cases c; simp add: get_my_public_value_def compute_public_value_def)+

lemma after_calls_keeps_peer:
  assumes "list_all (\<lambda>c. \<not> sets_other c) calls"
  shows "other_public_value (after_calls this calls) = other_public_value this"
    and "shared_secret (after_calls this calls) = shared_secret this"
    and "shared_secret_is_computed (after_calls this calls) = shared_secret_is_computed this"
  using assms unfolding after_calls_def
  by (induction calls arbitrary: this; simp add: call_step_keeps_peer)+

lemma modulus_length_MODP_768_BIT:
  assumes "diffie_hellman_create MODP_768_BIT alloc_ok helper_ok prime = (Some a, events_a)"
  shows "modulus_length a = 96"
proof -
  from create_Some [OF assms] obtain e where e: "e \<in> set modulus_info_entries"
    "group e = MODP_768_BIT" and l: "modulus_length a = length (modulus_info_entry_t.modulus e)"
    by (auto simp: allocator_alloc_thing_def)
  from e group_hd_entries have "e = hd modulus_info_entries"
    by (simp add: same_group_same_entry)
  then have "modulus_info_entry_t.modulus e = group1_modulus"
    unfolding modulus_info_entries_def by simp
  with l show ?thesis by (simp add: length_group1_modulus)
qed

text \<open>
  C4, as the code has it: as long as \<^verbatim>\<open>set_other_public_value\<close> was never called, both
  \<^verbatim>\<open>get_shared_secret\<close> and \<^verbatim>\<open>get_other_public_value\<close> return \<^verbatim>\<open>FAILED\<close>. After a call of
  \<^verbatim>\<open>set_other_public_value\<close> (and until the next one), \<^verbatim>\<open>get_shared_secret\<close> succeeds, and
  \<^verbatim>\<open>get_other_public_value\<close> succeeds exactly when the decoded peer value is below
  \<open>256 ^ modulus_length\<close>, as it is for every chunk of at most \<open>modulus_length\<close> bytes; for a
  larger peer value it returns \<^verbatim>\<open>FAILED\<close>.
\<close>

theorem getters_guarded_by_shared_secret:
  assumes "diffie_hellman_create g alloc_ok helper_ok prime = (Some a, events_a)"
    and "list_all (\<lambda>c. \<not> sets_other c) calls"
  shows "get_shared_secret (after_calls a calls) = Inl FAILED
       \<and> get_other_public_value (after_calls a calls) = Inl FAILED
       \<and> (let this = after_calls (fst (snd (set_other_public_value (after_calls a calls') chunk)))
                        calls
          in (\<exists>c. get_shared_secret this = Inr c)
           \<and> (if bytes_to_integer chunk < 256 ^ modulus_length a
              then \<exists>c. get_other_public_value this = Inr c
                     \<and> left_padded_encoding (modulus_length a) (bytes_to_integer chunk) c
              else get_other_public_value this = Inl FAILED)
           \<and> (if length chunk \<le> modulus_length a
              then \<exists>c. get_other_public_value this = Inr c else True))"
proof -
  note ca = consistent_create [OF assms(1)]
  have fresh: "\<not> shared_secret_is_computed (after_calls a calls)"
    using after_calls_keeps_peer(3) [OF assms(2), of a] ca(3) by simp
  then have 1: "get_shared_secret (after_calls a calls) = Inl FAILED"
    "get_other_public_value (after_calls a calls) = Inl FAILED"
    by (simp_all add: get_shared_secret_def get_other_public_value_def)
  define s where "s = after_calls a calls'"
  define s' where "s' = fst (snd (set_other_public_value s chunk))"
  define this where "this = after_calls s' calls"
  have cs: "consistent s" unfolding s_def by (rule consistent_after_calls [OF ca(1)])
  obtain r events where so: "set_other_public_value s chunk = (r, s', events)"
    unfolding s'_def by (cases "set_other_public_value s chunk") auto
  note frame = set_other_public_value_frame [OF so]
  have cs': "consistent s'" by (rule consistent_set_other_public_value [OF cs so])
  have ct: "consistent this" unfolding this_def by (rule consistent_after_calls [OF cs'])
  have len: "modulus_length this = modulus_length a"
    unfolding this_def s_def by (simp add: after_calls_frame frame(2) [unfolded s_def])
  have flag: "shared_secret_is_computed this"
    unfolding this_def using after_calls_keeps_peer(3) [OF assms(2), of s'] frame(8) by simp
  have peer: "other_public_value this = Mpz (bytes_to_integer chunk)"
    unfolding this_def using after_calls_keeps_peer(1) [OF assms(2), of s'] frame(9) by simp
  from consistentE [OF ct] obtain m p where mp: "modulus this = Mpz m" "my_prime this = Mpz p"
    "0 < m" "m < 256 ^ modulus_length this" by blast
  from consistent_shared [OF ct flag mp(1,2)] obtain y
    where y: "shared_secret this = Mpz (y ^ p mod m)" by blast
  from integer_to_bytes_mod [OF mp(3,4), of "y ^ p"]
  have 2: "\<exists>c. get_shared_secret this = Inr c"
    using flag y by (auto simp: get_shared_secret_def mpz_to_chunk_def)
  have o: "get_other_public_value this
             = integer_to_bytes (bytes_to_integer chunk) (modulus_length a)"
    using flag peer len by (simp add: get_other_public_value_def mpz_to_chunk_def)
  have 3: "if bytes_to_integer chunk < 256 ^ modulus_length a
              then \<exists>c. get_other_public_value this = Inr c
                     \<and> left_padded_encoding (modulus_length a) (bytes_to_integer chunk) c
              else get_other_public_value this = Inl FAILED"
    using integer_to_bytes_cases [of "bytes_to_integer chunk" "modulus_length a"]
    unfolding o by auto
  have 4: "\<exists>c. get_other_public_value this = Inr c" if "length chunk \<le> modulus_length a"
  proof -
    from that have "(256::nat) ^ length chunk \<le> 256 ^ modulus_length a"
      by (simp add: power_increasing)
    with bytes_to_integer_less [of chunk]
    have "bytes_to_integer chunk < 256 ^ modulus_length a" by linarith
    with 3 show ?thesis by auto
  qed
  from 1 2 3 4 show ?thesis
    unfolding this_def [symmetric] s'_def [symmetric] s_def [symmetric] Let_def by simp
qed

theorem getters_guarded_by_shared_secret_witness:
  "\<exists>a events_a.
      diffie_hellman_create MODP_768_BIT True True (Some 3) = (Some a, events_a)
    \<and> list_all (\<lambda>c. \<not> sets_other c) [Get_my_public_value]
    \<and> get_shared_secret (after_calls a [Get_my_public_value]) = Inl FAILED
    \<and> get_other_public_value (after_calls a [Get_my_public_value]) = Inl FAILED
    \<and> (\<exists>c. get_shared_secret
              (after_calls (fst (snd (set_other_public_value (after_calls a []) [7])))
                 [Get_my_public_value]) = Inr c)
    \<and> (\<exists>c. get_other_public_value
              (after_calls (fst (snd (set_other_public_value (after_calls a []) [7])))
                 [Get_my_public_value]) = Inr c)"
proof -
  from create_MODP_768_BIT [of 3] obtain a events_a
    where a: "diffie_hellman_create MODP_768_BIT True True (Some 3) = (Some a, events_a)"
    by blast
  have n: "list_all (\<lambda>c. \<not> sets_other c) [Get_my_public_value]" by simp
  have l: "length [7 :: u_int8_t] \<le> modulus_length a"
    by (simp add: modulus_length_MODP_768_BIT [OF a])
  from getters_guarded_by_shared_secret [OF a n, where calls' = "[]" and chunk = "[7]"] l
  have "get_shared_secret (after_calls a [Get_my_public_value]) = Inl FAILED
    \<and> get_other_public_value (after_calls a [Get_my_public_value]) = Inl FAILED
    \<and> (\<exists>c. get_shared_secret
              (after_calls (fst (snd (set_other_public_value (after_calls a []) [7])))
                 [Get_my_public_value]) = Inr c)
    \<and> (\<exists>c. get_other_public_value
              (after_calls (fst (snd (set_other_public_value (after_calls a []) [7])))
                 [Get_my_public_value]) = Inr c)"
    unfolding Let_def by (simp only: if_True simp_thms)
  with a n have conj: "diffie_hellman_create MODP_768_BIT True True (Some 3) = (Some a, events_a)
    \<and> list_all (\<lambda>c. \<not> sets_other c) [Get_my_public_value]
    \<and> get_shared_secret (after_calls a [Get_my_public_value]) = Inl FAILED
    \<and> get_other_public_value (after_calls a [Get_my_public_value]) = Inl FAILED
    \<and> (\<exists>c. get_shared_secret
              (after_calls (fst (snd (set_other_public_value (after_calls a []) [7])))
                 [Get_my_public_value]) = Inr c)
    \<and> (\<exists>c. get_other_public_value
              (after_calls (fst (snd (set_other_public_value (after_calls a []) [7])))
                 [Get_my_public_value]) = Inr c)"
    by (intro conjI) simp_all
  show ?thesis
    by (rule exI [of _ a], rule exI [of _ events_a]) (rule conj)
qed

text \<open>
  The claim C4 as the spec states it fails: on a fresh object of the 768-bit group, after
  \<^verbatim>\<open>set_other_public_value\<close> with a chunk of 97 bytes (the value \<open>256 ^ 96\<close>),
  \<^verbatim>\<open>get_other_public_value\<close> returns \<^verbatim>\<open>FAILED\<close>.
\<close>

theorem get_other_public_value_after_set_counterexample:
  "fst (diffie_hellman_create MODP_768_BIT True True (Some 3)) \<noteq> None
   \<and> get_other_public_value
       (fst (snd (set_other_public_value
          (the (fst (diffie_hellman_create MODP_768_BIT True True (Some 3))))
          (1 # replicate 96 0)))) = Inl FAILED"
proof -
  from create_MODP_768_BIT [of 3] obtain a events_a
    where a: "diffie_hellman_create MODP_768_BIT True True (Some 3) = (Some a, events_a)"
    by blast
  let ?chunk = "1 # replicate 96 0 :: chunk_t"
  obtain r s' events where so: "set_other_public_value a ?chunk = (r, s', events)"
    by (cases "set_other_public_value a ?chunk") auto
  note frame = set_other_public_value_frame [OF so]
  have v: "bytes_to_integer ?chunk = 256 ^ 96"
    by (simp add: bytes_to_integer_Cons bytes_to_integer_zeros)
  have "get_other_public_value s' = integer_to_bytes (256 ^ 96) 96"
    using frame(2,8,9) modulus_length_MODP_768_BIT [OF a]
    by (simp add: get_other_public_value_def mpz_to_chunk_def v)
  also have "\<dots> = Inl FAILED"
    by (rule integer_to_bytes_too_long) simp
  finally show ?thesis by (simp add: a so)
qed

section \<open>Creation that fails\<close>

lemma create_unsupported_group:
  assumes "\<forall>e \<in> set modulus_info_entries. group e \<noteq> g"
  shows "fst (diffie_hellman_create g alloc_ok helper_ok prime) = None"
    and "outstanding (snd (diffie_hellman_create g alloc_ok helper_ok prime)) [] = []"
proof -
  let ?raw = "allocator_alloc_thing\<lparr>dh_group_number := g\<rparr>"
  from assms have "\<forall>e \<in> set modulus_info_entries. group e \<noteq> dh_group_number ?raw" by simp
  then have "set_modulus ?raw = (Inl NOT_FOUND, [])"
    unfolding set_modulus_def by (rule set_modulus_loop_not_found)
  then show "fst (diffie_hellman_create g alloc_ok helper_ok prime) = None"
    and "outstanding (snd (diffie_hellman_create g alloc_ok helper_ok prime)) [] = []"
    by (simp_all add: diffie_hellman_create_def)
qed

lemma create_init_prime_failure:
  assumes "e \<in> set modulus_info_entries"
  shows "diffie_hellman_create (group e) True True None
           = (None, [Acquire This, Acquire Gmp_helper, Acquire (Big_integer Modulus),
                     Release Gmp_helper, Release This])"
proof -
  let ?raw = "allocator_alloc_thing\<lparr>dh_group_number := group e\<rparr>"
  have "group e = dh_group_number ?raw" by simp
  from set_modulus_loop_found [OF distinct_groups assms this]
  show ?thesis by (simp add: diffie_hellman_create_def set_modulus_def)
qed

lemma create_failure_outstanding:
  assumes "fst (diffie_hellman_create g alloc_ok helper_ok prime) = None"
  shows "outstanding (snd (diffie_hellman_create g alloc_ok helper_ok prime)) []
           = (if alloc_ok \<and> helper_ok \<and> g \<in> group ` set modulus_info_entries
              then [Big_integer Modulus] else [])"
proof (cases "alloc_ok \<and> helper_ok")
  case False
  then show ?thesis by (auto simp: diffie_hellman_create_def)
next
  case True
  show ?thesis
  proof (cases "g \<in> group ` set modulus_info_entries")
    case False
    then have "\<forall>e \<in> set modulus_info_entries. group e \<noteq> g" by auto
    from create_unsupported_group(2) [OF this] False show ?thesis by simp
  next
    case supported: True
    then obtain e where e: "e \<in> set modulus_info_entries" "group e = g" by auto
    have "prime = None"
    proof (rule ccontr)
      assume "prime \<noteq> None"
      then obtain p where "prime = Some p" by auto
      with create_supported [OF e(1), of p] assms True e(2) show False by auto
    qed
    with create_init_prime_failure [OF e(1)] True e(2) supported show ?thesis by simp
  qed
qed

text \<open>
  C3 at the failing input: creation for the 768-bit group when \<^verbatim>\<open>init_prime\<close> fails returns
  \<^verbatim>\<open>NULL\<close> after releasing the helper and the object, and the modulus, which
  \<^verbatim>\<open>set_modulus\<close> initialised, is never cleared.
\<close>

theorem create_init_prime_failure_keeps_modulus:
  "diffie_hellman_create MODP_768_BIT True True None
     = (None, [Acquire This, Acquire Gmp_helper, Acquire (Big_integer Modulus),
               Release Gmp_helper, Release This])
   \<and> outstanding (snd (diffie_hellman_create MODP_768_BIT True True None)) []
     = [Big_integer Modulus]"
  using create_init_prime_failure [OF group_hd_entries(1)] by (simp add: group_hd_entries(2))


section \<open>The list of allocations\<close>

lemma linked_update_other:
  "a \<notin> set nodes \<Longrightarrow> linked (mem(a := v)) prev cur nodes nxt = linked mem prev cur nodes nxt"
  by (induction nodes arbitrary: prev cur) (auto split: option.splits)

lemma linked_append:
  "linked mem prev cur (xs @ ys) nxt
     = (\<exists>mid. linked mem prev cur xs mid
            \<and> linked mem (if xs = [] then prev else Some (last xs)) mid ys nxt)"
  by (induction xs arbitrary: prev cur) (auto split: option.splits)

lemma linked_set_first_newer:
  assumes "linked mem prev cur (b # ys) nxt" and "b \<notin> set ys" and "mem b = Some bh"
  shows "linked (mem(b \<mapsto> bh\<lparr>newer := v\<rparr>)) v cur (b # ys) nxt"
  using assms by (simp add: linked_update_other)

lemma linked_set_last_older:
  assumes "linked mem prev cur (xs @ [n]) nxt" and "n \<notin> set xs" and "mem n = Some nh"
  shows "linked (mem(n \<mapsto> nh\<lparr>older := v\<rparr>)) prev cur (xs @ [n]) v"
  using assms by (auto simp: linked_append linked_update_other)

lemma linked_last_older:
  assumes "linked mem prev cur (xs @ [n]) nxt"
  shows "\<exists>nh. mem n = Some nh \<and> older nh = nxt"
  using assms by (auto simp: linked_append split: option.splits)

lemma linked_older_newer:
  assumes "linked mem prev cur nodes None" and "a \<in> set nodes" and "mem a = Some hdr"
    and "older hdr = Some b"
  shows "\<exists>bh. mem b = Some bh \<and> newer bh = Some a"
  using assms
proof (induction nodes arbitrary: prev cur)
  case Nil
  then show ?case by simp
next
  case (Cons x nodes)
  show ?case
  proof (cases "a = x")
    case True
    with Cons.prems have l: "linked mem (Some a) (Some b) nodes None"
      by (auto split: option.splits)
    then show ?thesis by (cases nodes) (auto split: option.splits)
  next
    case False
    with Cons.prems(2) have in_rest: "a \<in> set nodes" by simp
    from Cons.prems(1) obtain xh :: memory_hdr_t
      where "linked mem (Some x) (older xh) nodes None"
      by (cases "mem x") auto
    from Cons.IH [OF this in_rest Cons.prems(3,4)] show ?thesis .
  qed
qed

lemma request_fits:
  assumes "unat sizeof_memory_hdr_t + unat bytes < 2 ^ 64"
  shows "\<not> unat (sizeof_memory_hdr_t + bytes) < unat sizeof_memory_hdr_t + unat bytes"
proof -
  from assms have "unat (sizeof_memory_hdr_t + bytes) = unat sizeof_memory_hdr_t + unat bytes"
    using unat_add_lem [of sizeof_memory_hdr_t bytes] by simp
  then show ?thesis by simp
qed

lemma request_wraps:
  assumes "2 ^ 64 \<le> unat sizeof_memory_hdr_t + unat bytes"
  shows "unat (sizeof_memory_hdr_t + bytes) < unat sizeof_memory_hdr_t + unat bytes"
proof -
  have "unat (sizeof_memory_hdr_t + bytes) < 2 ^ 64"
    using unsigned_less [of "sizeof_memory_hdr_t + bytes"] by simp
  with assms show ?thesis by linarith
qed

lemma allocate_special_well_formed:
  assumes "well_formed this nodes live" and "memory this a = None"
    and "unat sizeof_memory_hdr_t + unat bytes < 2 ^ 64"
  shows "\<exists>this'. allocate_special this bytes file ln (Some a) = Inr (Some a, this')
           \<and> well_formed this' (a # nodes) (a # live)"
proof -
  from assms have l: "linked (memory this) None (allocations this) nodes None"
    and d: "distinct nodes" "distinct live" and s: "set nodes = set live"
    and m: "dom (memory this) = set nodes"
    by (auto simp: well_formed_def)
  from assms(2) m have fresh: "a \<notin> set nodes" by auto
  note fits = request_fits [OF assms(3)]
  let ?hdr = "\<lparr>filename = file, line = scast ln, size_of_memory = bytes,
                older = allocations this, newer = None\<rparr>"
  show ?thesis
  proof (cases nodes)
    case Nil
    with l have h: "allocations this = None" by simp
    let ?this' = "\<lparr>allocations = Some a, memory = (memory this)(a \<mapsto> ?hdr)\<rparr>"
    have "allocate_special this bytes file ln (Some a) = Inr (Some a, ?this')"
      using fits by (simp add: allocate_special_def h write_newer_def)
    moreover have "well_formed ?this' (a # nodes) (a # live)"
      using Nil h d s m fresh by (auto simp: well_formed_def)
    ultimately show ?thesis by blast
  next
    case (Cons h rest)
    with l obtain hh where h: "allocations this = Some h" "memory this h = Some hh"
      by (auto split: option.splits)
    from fresh Cons have ha: "h \<noteq> a" by auto
    let ?mem1 = "(memory this)(a \<mapsto> ?hdr)"
    let ?mem2 = "?mem1(h \<mapsto> hh\<lparr>newer := Some a\<rparr>)"
    let ?mem3 = "?mem2(a \<mapsto> ?hdr)"
    let ?this' = "\<lparr>allocations = Some a, memory = ?mem3\<rparr>"
    have "allocate_special this bytes file ln (Some a) = Inr (Some a, ?this')"
      using ha fits by (simp add: allocate_special_def h write_newer_def)
    moreover have "linked ?mem3 None (Some a) (a # nodes) None"
    proof -
      from l have l': "linked (memory this) None (Some h) (h # rest) None"
        unfolding h(1) Cons .
      from fresh have f': "a \<notin> set (h # rest)" unfolding Cons .
      have "linked ?mem1 None (Some h) (h # rest) None"
        unfolding linked_update_other [OF f'] by (rule l')
      moreover from d Cons have "h \<notin> set rest" by simp
      moreover from ha h have "?mem1 h = Some hh" by simp
      ultimately have "linked ?mem2 (Some a) (Some h) (h # rest) None"
        by (rule linked_set_first_newer)
      then have "linked ?mem3 (Some a) (Some h) (h # rest) None"
        unfolding linked_update_other [OF f'] .
      then show ?thesis unfolding Cons by (simp add: h)
    qed
    moreover have "dom ?mem3 = set (a # nodes)"
      using m h Cons by auto
    ultimately have "well_formed ?this' (a # nodes) (a # live)"
      using d s fresh by (simp add: well_formed_def)
    with \<open>allocate_special this bytes file ln (Some a) = Inr (Some a, ?this')\<close>
    show ?thesis by blast
  qed
qed


lemma unlink_from_older_linked:
  assumes "mem a = Some hdr" and "linked mem (Some a) (older hdr) ys None"
    and "a \<notin> set ys" and "distinct ys"
  shows "\<exists>mem1. unlink_from_older mem a hdr = Inr mem1 \<and> mem1 a = Some hdr
           \<and> linked mem1 (newer hdr) (older hdr) ys None \<and> dom mem1 = dom mem
           \<and> (\<forall>x. x \<notin> set ys \<longrightarrow> mem1 x = mem x)"
proof (cases ys)
  case Nil
  with assms(2) have "older hdr = None" by simp
  with assms(1) Nil show ?thesis by (simp add: unlink_from_older_def)
next
  case (Cons b rest)
  with assms(2) obtain bh where b: "older hdr = Some b" "mem b = Some bh" "newer bh = Some a"
    by (auto split: option.splits)
  from assms(3,4) Cons have ne: "b \<noteq> a" "b \<notin> set rest" by auto
  let ?mem1 = "mem(b \<mapsto> bh\<lparr>newer := newer hdr\<rparr>)"
  have u: "unlink_from_older mem a hdr = Inr ?mem1"
    by (simp add: unlink_from_older_def b write_newer_def)
  from assms(2) have "linked mem (Some a) (Some b) (b # rest) None"
    unfolding b(1) Cons .
  from linked_set_first_newer [OF this ne(2) b(2)]
  have "linked ?mem1 (newer hdr) (older hdr) ys None"
    unfolding b(1) Cons .
  moreover have "?mem1 a = Some hdr" using ne(1) assms(1) by simp
  moreover have "dom ?mem1 = dom mem" using b(2) by auto
  moreover have "\<forall>x. x \<notin> set ys \<longrightarrow> ?mem1 x = mem x" using Cons by simp
  ultimately show ?thesis using u by blast
qed

lemma linked_cong:
  assumes "\<forall>x. x \<in> set nodes \<longrightarrow> mem' x = mem x"
  shows "linked mem' prev cur nodes nxt = linked mem prev cur nodes nxt"
  using assms by (induction nodes arbitrary: prev cur) (auto split: option.splits)

lemma free_pointer_well_formed:
  assumes "well_formed this nodes live" and "a \<in> set live"
  shows "\<exists>this'. free_pointer this (Some a) = Inr this'
           \<and> well_formed this' (remove1 a nodes) (remove1 a live)"
proof -
  from assms(1) have l: "linked (memory this) None (allocations this) nodes None"
    and d: "distinct nodes" "distinct live" and s: "set nodes = set live"
    and m: "dom (memory this) = set nodes"
    by (auto simp: well_formed_def)
  from assms(2) s have "a \<in> set nodes" by simp
  then obtain xs ys where n: "nodes = xs @ a # ys" by (auto dest: split_list)
  from d(1) n have dis: "a \<notin> set xs" "a \<notin> set ys" "distinct xs" "distinct ys"
    "set xs \<inter> set ys = {}" by auto
  have rem: "remove1 a nodes = xs @ ys"
    unfolding n using dis(1) by (simp add: remove1_append)
  define P where "P = (if xs = [] then None else Some (last xs))"
  from l [unfolded n linked_append] obtain hdr
    where lx: "linked (memory this) None (allocations this) xs (Some a)"
      and ma: "memory this a = Some hdr" and nw: "newer hdr = P"
      and ly: "linked (memory this) (Some a) (older hdr) ys None"
    by (auto simp: P_def split: option.splits)
  from unlink_from_older_linked [OF ma ly dis(2,4)] obtain mem1
    where u: "unlink_from_older (memory this) a hdr = Inr mem1" and m1a: "mem1 a = Some hdr"
      and l1y: "linked mem1 P (older hdr) ys None" and dom1: "dom mem1 = dom (memory this)"
      and same: "\<forall>x. x \<notin> set ys \<longrightarrow> mem1 x = memory this x"
    unfolding nw by blast
  from same dis(5) have "\<forall>x. x \<in> set xs \<longrightarrow> mem1 x = memory this x" by auto
  from linked_cong [OF this] lx
  have l1x: "linked mem1 None (allocations this) xs (Some a)" by simp
  have live': "set (xs @ ys) = set (remove1 a live)" "distinct (remove1 a live)"
    using d s n dis by (auto simp: set_remove1_eq)
  have dist': "distinct (xs @ ys)" using dis by auto
  show ?thesis
  proof (cases xs rule: rev_cases)
    case Nil
    with l1x have h: "allocations this = Some a" by simp
    from Nil have p: "P = None" by (simp add: P_def)
    let ?this' = "\<lparr>allocations = older hdr, memory = mem1(a := None)\<rparr>"
    have f: "free_pointer this (Some a) = Inr ?this'"
      by (simp add: free_pointer_def ma u m1a nw p h)
    from l1y have "linked (mem1(a := None)) None (older hdr) ys None"
      unfolding p linked_update_other [OF dis(2)] .
    moreover have "dom (mem1(a := None)) = set (xs @ ys)"
      using dom1 m n dis Nil by auto
    ultimately have "well_formed ?this' (xs @ ys) (remove1 a live)"
      using live' dist' Nil by (simp add: well_formed_def)
    with f rem show ?thesis by auto
  next
    case (snoc front n')
    then have p: "P = Some n'" by (simp add: P_def)
    from l1x have lf: "linked mem1 None (allocations this) (front @ [n']) (Some a)"
      unfolding snoc .
    from linked_last_older [OF lf] obtain nh where nh: "mem1 n' = Some nh" "older nh = Some a"
      by blast
    from dis snoc have ne: "n' \<noteq> a" "n' \<notin> set front" "n' \<notin> set ys" by auto
    let ?mem2 = "mem1(n' \<mapsto> nh\<lparr>older := older hdr\<rparr>)"
    let ?this' = "\<lparr>allocations = allocations this, memory = ?mem2(a := None)\<rparr>"
    have f: "free_pointer this (Some a) = Inr ?this'"
      by (simp add: free_pointer_def ma u m1a nw p nh write_older_def)
    from linked_set_last_older [OF lf ne(2) nh(1)]
    have "linked ?mem2 None (allocations this) xs (older hdr)"
      unfolding snoc .
    moreover from l1y have "linked ?mem2 (Some n') (older hdr) ys None"
      unfolding p linked_update_other [OF ne(3)] .
    ultimately have l2: "linked ?mem2 None (allocations this) (xs @ ys) None"
      unfolding linked_append using snoc by auto
    have na: "a \<notin> set (xs @ ys)" using dis by simp
    from l2 have "linked (?mem2(a := None)) None (allocations this) (xs @ ys) None"
      unfolding linked_update_other [OF na] .
    moreover have "dom (?mem2(a := None)) = set (xs @ ys)"
      using dom1 m n dis nh by auto
    ultimately have "well_formed ?this' (xs @ ys) (remove1 a live)"
      using live' dist' by (simp add: well_formed_def)
    with f rem show ?thesis by auto
  qed
qed


lemma allocate_special_permitted:
  assumes "well_formed this nodes live"
    and "case m of None \<Rightarrow> True
         | Some a \<Rightarrow> memory this a = None \<and> unat sizeof_memory_hdr_t + unat bytes < 2 ^ 64"
  shows "\<exists>this'. allocate_special this bytes file ln m = Inr (m, this')
           \<and> well_formed this' (case m of None \<Rightarrow> nodes | Some a \<Rightarrow> a # nodes)
                (case m of None \<Rightarrow> live | Some a \<Rightarrow> a # live)"
proof (cases m)
  case None
  with assms(1) show ?thesis by (simp add: allocate_special_def)
next
  case (Some a)
  with assms(2) have "memory this a = None" "unat sizeof_memory_hdr_t + unat bytes < 2 ^ 64"
    by simp_all
  from allocate_special_well_formed [OF assms(1) this] Some show ?thesis by simp
qed

lemma call_allocator_well_formed:
  assumes "well_formed this nodes live" and "call_permitted this live c"
  shows "\<exists>result this' nodes'. call_allocator this c = Inr (result, this')
           \<and> well_formed this' nodes' (handed_out live c result)"
proof (cases c)
  case (Allocate bytes fl ln m)
  with assms(2) have "case m of None \<Rightarrow> True
      | Some a \<Rightarrow> memory this a = None \<and> unat sizeof_memory_hdr_t + unat bytes < 2 ^ 64"
    by (cases m) (simp_all add: call_permitted_def call_in_contract_def)
  from allocate_special_permitted [OF assms(1) this, of fl ln] Allocate
  show ?thesis by (cases m) (auto simp: allocate_def handed_out_def)
next
  case (Allocate_as_chunk bytes fl ln m)
  with assms(2) have "case m of None \<Rightarrow> True
      | Some a \<Rightarrow> memory this a = None \<and> unat sizeof_memory_hdr_t + unat bytes < 2 ^ 64"
    by (cases m) (simp_all add: call_permitted_def call_in_contract_def)
  from allocate_special_permitted [OF assms(1) this, of fl ln] Allocate_as_chunk
  show ?thesis by (cases m) (auto simp: allocate_as_chunk_def handed_out_def)
next
  case (Clone_bytes to_clone bytes fl ln m)
  show ?thesis
  proof (cases to_clone)
    case None
    with Clone_bytes assms(1) show ?thesis
      by (auto simp: clone_bytes_def handed_out_def)
  next
    case (Some source)
    with Clone_bytes assms(2) have "case m of None \<Rightarrow> True
      | Some a \<Rightarrow> memory this a = None \<and> unat sizeof_memory_hdr_t + unat bytes < 2 ^ 64"
      by (cases m) (simp_all add: call_permitted_def call_in_contract_def)
    from allocate_special_permitted [OF assms(1) this, of fl ln] Clone_bytes Some
    show ?thesis by (cases m) (auto simp: clone_bytes_def handed_out_def)
  qed
next
  case (Reallocate old bytes fl ln m)
  show ?thesis
  proof (cases old)
    case None
    with Reallocate assms(1) show ?thesis
      by (auto simp: reallocate_def handed_out_def)
  next
    case (Some a)
    with Reallocate assms(2) have a: "a \<in> set live"
      by (simp add: call_permitted_def call_in_contract_def)
    from Some Reallocate assms(2) have fresh: "case m of None \<Rightarrow> True
      | Some a \<Rightarrow> memory this a = None \<and> unat sizeof_memory_hdr_t + unat bytes < 2 ^ 64"
      by (cases m) (simp_all add: call_permitted_def call_in_contract_def)
    from assms(1) a have in_mem: "memory this a \<noteq> None"
      by (auto simp: well_formed_def)
    show ?thesis
    proof (cases m)
      case None
      from free_pointer_well_formed [OF assms(1) a] obtain this2
        where "free_pointer this (Some a) = Inr this2"
          "well_formed this2 (remove1 a nodes) (remove1 a live)" by blast
      with Reallocate Some None show ?thesis
        by (auto simp: reallocate_def allocate_special_def handed_out_def)
    next
      case new: (Some n)
      with fresh have fn: "memory this n = None"
        and fits: "unat sizeof_memory_hdr_t + unat bytes < 2 ^ 64" by simp_all
      with in_mem have ne: "n \<noteq> a" by auto
      from allocate_special_well_formed [OF assms(1) fn fits, of fl ln] obtain this1
        where al: "allocate_special this bytes fl ln (Some n) = Inr (Some n, this1)"
          and wf1: "well_formed this1 (n # nodes) (n # live)" by blast
      from a have a1: "a \<in> set (n # live)" by simp
      from wf1 a1 obtain hdr where hdr: "memory this1 a = Some hdr"
        by (auto simp: well_formed_def)
      from free_pointer_well_formed [OF wf1 a1] obtain this2
        where fr: "free_pointer this1 (Some a) = Inr this2"
          and wf2: "well_formed this2 (remove1 a (n # nodes)) (remove1 a (n # live))" by blast
      from ne have "remove1 a (n # live) = n # remove1 a live" by simp
      with wf2 have "well_formed this2 (remove1 a (n # nodes)) (handed_out live c (Some n))"
        by (simp add: handed_out_def Reallocate Some)
      moreover have "call_allocator this c = Inr (Some n, this2)"
        by (simp add: Reallocate Some new reallocate_def al hdr fr)
      ultimately show ?thesis by blast
    qed
  qed
next
  case (Free_pointer pointer)
  show ?thesis
  proof (cases pointer)
    case None
    with Free_pointer assms(1) show ?thesis
      by (auto simp: free_pointer_def handed_out_def)
  next
    case (Some a)
    with Free_pointer assms(2) have a: "a \<in> set live"
      by (simp add: call_permitted_def call_in_contract_def)
    from free_pointer_well_formed [OF assms(1) a] Free_pointer Some show ?thesis
      by (auto simp: handed_out_def)
  qed
qed

lemma run_allocator_well_formed:
  assumes "well_formed this nodes live" and "calls_permitted this live calls"
  shows "\<exists>this' live' nodes'. run_allocator this live calls = Inr (this', live')
           \<and> well_formed this' nodes' live'"
  using assms
proof (induction calls arbitrary: this nodes live)
  case Nil
  then show ?case by auto
next
  case (Cons c calls)
  from Cons.prems(2) have p: "call_permitted this live c" by simp
  from call_allocator_well_formed [OF Cons.prems(1) p] obtain result this1 nodes1
    where c: "call_allocator this c = Inr (result, this1)"
      and wf: "well_formed this1 nodes1 (handed_out live c result)" by blast
  from Cons.prems(2) c have "calls_permitted this1 (handed_out live c result) calls" by simp
  from Cons.IH [OF wf this] c show ?case by simp
qed

lemma well_formed_allocator: "well_formed allocator [] []"
  by (simp add: well_formed_def allocator_def)

lemma report_loop_visits:
  assumes "linked mem pprev p nodes None" and "length nodes < fuel"
  shows "\<exists>printed. report_loop fuel mem p pprev n = Some (Inr (nodes, printed))
           \<and> sum_list (map fst printed) = (if nodes = [] then 0 else n + of_nat (length nodes))"
  using assms
proof (induction nodes arbitrary: fuel p pprev n)
  case Nil
  then obtain k where "fuel = Suc k" by (cases fuel) auto
  with Nil show ?case by simp
next
  case (Cons a rest)
  from Cons.prems(2) obtain k where k: "fuel = Suc k" "length rest < k" by (cases fuel) auto
  from Cons.prems(1) obtain hdr where h: "p = Some a" "mem a = Some hdr" "newer hdr = pprev"
    and l: "linked mem (Some a) (older hdr) rest None"
    by (auto split: option.splits)
  show ?case
  proof (cases rest)
    case Nil
    with l have o: "older hdr = None" by simp
    from k(2) Nil obtain j where "k = Suc j" by (cases k) auto
    with Nil o h k show ?thesis by simp
  next
    case next_node: (Cons b rest')
    with l obtain bh where b: "older hdr = Some b" "mem b = Some bh"
      by (auto split: option.splits)
    let ?emit = "fst (filename hdr) \<noteq> fst (filename bh)"
    from Cons.IH [OF l k(2), of "if ?emit then 0 else n + 1"] obtain printed
      where r: "report_loop k mem (older hdr) (Some a) (if ?emit then 0 else n + 1)
                  = Some (Inr (rest, printed))"
        and c: "sum_list (map fst printed)
                  = (if rest = [] then 0
                     else (if ?emit then 0 else n + 1) + of_nat (length rest))"
      by blast
    from r [unfolded b(1)] c next_node show ?thesis
      by (simp add: k(1) h b)
  qed
qed


lemma allocate_special_overrun:
  assumes "2 ^ 64 \<le> unat sizeof_memory_hdr_t + unat bytes"
  shows "allocate_special this bytes file ln (Some a) = Inl Buffer_overrun"
  using request_wraps [OF assms] by (simp add: allocate_special_def)

text \<open>
  C10, as the code has it: after every sequence of \<^verbatim>\<open>allocate\<close>, \<^verbatim>\<open>allocate_as_chunk\<close>,
  \<^verbatim>\<open>clone_bytes\<close>, \<^verbatim>\<open>reallocate\<close> and \<^verbatim>\<open>free_pointer\<close> calls that keeps the contract
  (\<^verbatim>\<open>malloc\<close> returns \<^verbatim>\<open>NULL\<close> or an unused block; only \<^verbatim>\<open>NULL\<close> or an outstanding allocation is
  given back) and in which no size that \<^verbatim>\<open>malloc\<close> serves wraps around when the size of the
  header is added, no assertion fails, no write leaves its block, and the list of allocations
  is a well-formed doubly linked list: the head's \<open>newer\<close> link is \<^verbatim>\<open>NULL\<close>, the \<open>newer\<close> link of
  every node's older node points back to it, and its nodes are, each once, exactly the
  allocations handed out and not yet freed. With fuel for one step more than there are
  allocations, the loop of \<^verbatim>\<open>allocator_report_memory_leaks\<close> ends without a failed assertion,
  has visited exactly these nodes, each once, and the counts it printed add up (in
  \<^verbatim>\<open>unsigned long\<close>) to their number.
\<close>

theorem allocations_list_well_formed:
  assumes "calls_permitted allocator [] calls"
  shows "\<exists>this live nodes printed.
      run_allocator allocator [] calls = Inr (this, live)
    \<and> linked (memory this) None (allocations this) nodes None
    \<and> distinct nodes \<and> set nodes = set live \<and> distinct live \<and> dom (memory this) = set live
    \<and> (case allocations this of
         None \<Rightarrow> live = []
       | Some h \<Rightarrow> \<exists>hdr. memory this h = Some hdr \<and> newer hdr = None)
    \<and> (\<forall>a \<in> set live. \<exists>hdr. memory this a = Some hdr
           \<and> (case older hdr of
                 None \<Rightarrow> True
               | Some b \<Rightarrow> b \<in> set live \<and> (\<exists>bh. memory this b = Some bh \<and> newer bh = Some a)))
    \<and> allocator_report_memory_leaks (Suc (length live) + extra) this
          = Some (Inr (nodes, printed))
    \<and> sum_list (map fst printed) = of_nat (length live)"
proof -
  from run_allocator_well_formed [OF well_formed_allocator assms] obtain this live nodes
    where run: "run_allocator allocator [] calls = Inr (this, live)"
      and wf: "well_formed this nodes live" by blast
  from wf have l: "linked (memory this) None (allocations this) nodes None"
    and d: "distinct nodes" "distinct live" and s: "set nodes = set live"
    and m: "dom (memory this) = set nodes"
    by (auto simp: well_formed_def)
  have head: "case allocations this of
         None \<Rightarrow> live = []
       | Some h \<Rightarrow> \<exists>hdr. memory this h = Some hdr \<and> newer hdr = None"
  proof (cases nodes)
    case Nil
    with l s show ?thesis by simp
  next
    case (Cons h rest)
    with l show ?thesis by (auto split: option.splits)
  qed
  have older_newer: "\<exists>hdr. memory this a = Some hdr
           \<and> (case older hdr of
                 None \<Rightarrow> True
               | Some b \<Rightarrow> b \<in> set live \<and> (\<exists>bh. memory this b = Some bh \<and> newer bh = Some a))"
    if a: "a \<in> set live" for a
  proof -
    from a s m obtain hdr where hdr: "memory this a = Some hdr" by auto
    show ?thesis
    proof (cases "older hdr")
      case None
      with hdr show ?thesis by simp
    next
      case (Some b)
      from a s have "a \<in> set nodes" by simp
      from linked_older_newer [OF l this hdr Some] obtain bh
        where bh: "memory this b = Some bh" "newer bh = Some a" by blast
      with m s have "b \<in> set live" by auto
      with hdr Some bh show ?thesis by simp
    qed
  qed
  from distinct_card [OF d(1)] distinct_card [OF d(2)] s
  have len: "length nodes = length live" by simp
  then have "length nodes < Suc (length live) + extra" by simp
  from report_loop_visits [OF l this, of 0] obtain printed
    where r: "report_loop (Suc (length live) + extra) (memory this) (allocations this) None 0
                = Some (Inr (nodes, printed))"
      and c: "sum_list (map fst printed) = (if nodes = [] then 0 else 0 + of_nat (length nodes))"
    by blast
  from c len have "sum_list (map fst printed) = of_nat (length live)"
    by (cases "nodes = []") simp_all
  with r [folded allocator_report_memory_leaks_def]
  have "allocator_report_memory_leaks (Suc (length live) + extra) this
             = Some (Inr (nodes, printed))
      \<and> sum_list (map fst printed) = of_nat (length live)"
    by (rule conjI)
  with run l d s m head older_newer show ?thesis by (simp add: s [symmetric])
qed

theorem allocations_list_well_formed_witness:
  "calls_permitted allocator []
     [Allocate 8 (100, ''a.c'') 10 (Some 1), Allocate_as_chunk 4 (100, ''a.c'') 20 (Some 2),
      Clone_bytes (Some 7) 4 (200, ''b.c'') 30 (Some 3), Free_pointer (Some 2),
      Reallocate (Some 1) 16 (300, ''c.c'') 40 (Some 4)]
   \<and> (\<exists>this live nodes printed.
        run_allocator allocator []
          [Allocate 8 (100, ''a.c'') 10 (Some 1), Allocate_as_chunk 4 (100, ''a.c'') 20 (Some 2),
           Clone_bytes (Some 7) 4 (200, ''b.c'') 30 (Some 3), Free_pointer (Some 2),
           Reallocate (Some 1) 16 (300, ''c.c'') 40 (Some 4)] = Inr (this, live)
      \<and> linked (memory this) None (allocations this) nodes None
      \<and> distinct nodes \<and> set nodes = set live
      \<and> allocator_report_memory_leaks (Suc (length live)) this = Some (Inr (nodes, printed))
      \<and> sum_list (map fst printed) = of_nat (length live))"
proof -
  let ?calls = "[Allocate 8 (100, ''a.c'') 10 (Some 1), Allocate_as_chunk 4 (100, ''a.c'') 20 (Some 2),
      Clone_bytes (Some 7) 4 (200, ''b.c'') 30 (Some 3), Free_pointer (Some 2),
      Reallocate (Some 1) 16 (300, ''c.c'') 40 (Some 4)]"
  have p: "calls_permitted allocator [] ?calls"
    by (simp add: allocator_def call_permitted_def call_in_contract_def handed_out_def
        allocate_def allocate_as_chunk_def clone_bytes_def reallocate_def free_pointer_def
        allocate_special_def unlink_from_older_def write_newer_def write_older_def
        sizeof_memory_hdr_t_def)
  from allocations_list_well_formed [OF p, of 0]
  have "\<exists>this live nodes printed.
        run_allocator allocator [] ?calls = Inr (this, live)
      \<and> linked (memory this) None (allocations this) nodes None
      \<and> distinct nodes \<and> set nodes = set live
      \<and> allocator_report_memory_leaks (Suc (length live)) this = Some (Inr (nodes, printed))
      \<and> sum_list (map fst printed) = of_nat (length live)"
    by (simp only: add_0_right) blast
  with p show ?thesis by (rule conjI)
qed

text \<open>
  The claim C10 as the spec states it fails: \<^verbatim>\<open>allocate\<close> of \<open>2 ^ 64 - 9\<close> bytes on the fresh
  allocator keeps the contract, its request to \<^verbatim>\<open>malloc\<close> wraps around to 31 bytes, and when
  \<^verbatim>\<open>malloc\<close> returns a block the writes of \<^verbatim>\<open>allocate_special\<close> run past its end.
\<close>

theorem allocate_wrapped_request_counterexample:
  "call_in_contract allocator [] (Allocate 0xFFFFFFFFFFFFFFF7 (100, ''a.c'') 10 (Some 1))
   \<and> unat (sizeof_memory_hdr_t + 0xFFFFFFFFFFFFFFF7) = 31
   \<and> run_allocator allocator [] [Allocate 0xFFFFFFFFFFFFFFF7 (100, ''a.c'') 10 (Some 1)]
       = Inl Buffer_overrun"
  by (simp add: call_in_contract_def allocator_def allocate_def allocate_special_def
      sizeof_memory_hdr_t_def)


end
